theory Spec2Isabelle
  imports Main "HOL-Library.Sublist"
begin

section \<open>Python values used by the agent\<close>

text \<open>
  Python's \<open>str(n)\<close> for an integer: decimal digits, most significant first, with a
  leading minus sign for a negative number.
\<close>

definition digit_char :: "nat \<Rightarrow> char" where
  "digit_char d = ''0123456789'' ! d"

function str_nat :: "nat \<Rightarrow> string" where
  "str_nat n = (if n < 10 then [digit_char n] else str_nat (n div 10) @ [digit_char (n mod 10)])"
  by pat_completeness auto
termination
  by (relation "measure id") auto

declare str_nat.simps [simp del]

definition str_int :: "int \<Rightarrow> string" where
  "str_int i = (if i < 0 then CHR ''-'' # str_nat (nat (- i)) else str_nat (nat i))"

text \<open>Truthiness of an optional string (\<open>None\<close> and the empty string are falsy).\<close>

fun truthy_str :: "string option \<Rightarrow> bool" where
  "truthy_str None = False"
| "truthy_str (Some s) = (s \<noteq> [])"

text \<open>\<open>x or 0\<close> for an optional integer.\<close>

fun or_zero :: "int option \<Rightarrow> int" where
  "or_zero None = 0"
| "or_zero (Some n) = (if n = 0 then 0 else n)"

text \<open>
  Python's slice \<open>xs[:k]\<close>: the first \<open>k\<close> entries for \<open>k \<ge> 0\<close>, all but the last
  \<open>-k\<close> entries for \<open>k < 0\<close>.
\<close>

definition slice_to :: "'a list \<Rightarrow> int \<Rightarrow> 'a list" where
  "slice_to xs k = (if 0 \<le> k then take (nat k) xs else take (length xs - nat (- k)) xs)"

section \<open>prompts.py: the app-state description\<close>

text \<open>
  The fields of \<open>AppState\<close> that \<open>AgentMessagePrompt\<close> reads. The element tree is opaque:
  \<open>elements_string\<close> is what \<open>element_tree.interactive_elements_to_string\<close> returned for
  the snapshot (the empty string when there is no interactive element).
\<close>

record app_state =
  elements_string :: string
  pixels_above :: "int option"
  pixels_below :: "int option"
  screenshot :: "string option"

definition str_opt_int :: "int option \<Rightarrow> string" where
  "str_opt_int p = (case p of None \<Rightarrow> ''None'' | Some n \<Rightarrow> str_int n)"

text \<open>
  The local variable \<open>elements_text\<close> of \<open>_get_app_state_description\<close> at the end of the
  method: the element summary with its viewport markers.
\<close>

definition elements_text :: "app_state \<Rightarrow> string" where
  "elements_text st =
     (let et = elements_string st;
          has_content_above = (or_zero (pixels_above st) > 0);
          has_content_below = (or_zero (pixels_below st) > 0)
      in if et \<noteq> [] then
           (let et1 = (if has_content_above
                       then ''... '' @ str_opt_int (pixels_above st)
                            @ '' pixels above - scroll or extract content to see more ...''
                            @ [CHR 0x0A] @ et
                       else ''[Start of page]'' @ [CHR 0x0A] @ et)
            in if has_content_below
               then et1 @ [CHR 0x0A] @ ''... '' @ str_opt_int (pixels_below st)
                    @ '' pixels below - scroll or extract content to see more ...''
               else et1 @ [CHR 0x0A] @ ''[End of page]'')
         else ''empty page'')"

definition get_app_state_description :: "app_state \<Rightarrow> string" where
  "get_app_state_description st =
     ''Interactive elements from top layer of the current page inside the viewport:''
     @ [CHR 0x0A] @ elements_text st"


section \<open>service.py: data of the agent\<close>

text \<open>The exceptions that \<open>service.py\<close> raises, catches or tells apart, with their message.\<close>

datatype exn =
    InterruptedError string
  | CancelledError
  | ValidationError string
  | ValueError string
  | RateLimitError string
  | ZeroDivisionError
  | ConnectionError string
  | RuntimeError string
  | OtherException string

text \<open>
  An action is the dictionary that \<open>model_dump()\<close> gives for an \<open>ActionModel\<close> instance:
  action name to parameters. An all-default action dumps to the empty dictionary.
\<close>

datatype pvalue = PBool bool | PStr string | PInt int

type_synonym action = "(string \<times> (string \<times> pvalue) list) list"

record action_result =
  is_done :: bool
  success :: "bool option"
  extracted_content :: "string option"
  error :: "string option"

text \<open>\<open>ActionResult(error=msg)\<close>: the other fields keep their defaults.\<close>

definition error_result :: "string \<Rightarrow> action_result" where
  "error_result msg = \<lparr>is_done = False, success = None, extracted_content = None, error = Some msg\<rparr>"

record agent_output =
  thinking :: string
  evaluation_previous_goal :: string
  memory :: string
  next_goal :: string
  action :: "action list"

datatype message =
    SystemMessage string
  | HumanMessage string
  | HumanImageMessage string string
  | AIMessage string
  | OutputMessage agent_output

record step_info =
  step_number :: int
  max_steps :: int

text \<open>
  Modelled from the spec: \<open>AgentStepInfo.is_last_step\<close> is declared outside these sources;
  the last step of \<open>range(max_steps)\<close> is the one numbered \<open>max_steps - 1\<close>.
\<close>

definition is_last_step :: "step_info \<Rightarrow> bool" where
  "is_last_step si = (step_number si \<ge> max_steps si - 1)"

record history_item =
  h_model_output :: "agent_output option"
  h_result :: "action_result list"
  h_state :: app_state
  h_step_number :: int

text \<open>
  What the agent does to the outside world, in order: model calls (with the messages
  sent), planner calls, snapshots, executed actions and sleeps (in milliseconds).
\<close>

datatype event =
    LLMCall "message list"
  | PlannerCall
  | GetAppState
  | Act action
  | Sleep int

datatype interrupt = Pause | Stop

text \<open>
  The external collaborators. Each is deterministic given everything the agent did
  before (the trace):
  \<^item> \<open>env_llm\<close>: the transport call and the parsing of \<open>get_next_action\<close> up to the parsed
    \<open>AgentOutput\<close>, or the exception that part raises;
  \<^item> \<open>env_interrupt\<close>: a call of \<open>pause()\<close> or \<open>stop()\<close> arriving while the agent awaits
    what follows the trace (the model call, an action of the controller, or the sleep
    between two actions);
  \<^item> \<open>env_sleep_cancelled\<close>: the sleep that follows the trace is cancelled;
  \<^item> \<open>env_act\<close>: \<open>controller.act\<close>; \<open>env_app_state\<close>: \<open>app.get_app_state\<close>;
  \<^item> \<open>env_planner\<close>: the content of the planner model's answer;
  \<^item> \<open>env_format_error\<close>: \<open>AgentError.format_error\<close>; \<open>env_time_str\<close>: the formatted clock.
\<close>

record env =
  env_llm :: "event list \<Rightarrow> message list \<Rightarrow> exn + agent_output"
  env_interrupt :: "event list \<Rightarrow> interrupt option"
  env_sleep_cancelled :: "event list \<Rightarrow> bool"
  env_act :: "event list \<Rightarrow> action \<Rightarrow> exn + action_result"
  env_app_state :: "event list \<Rightarrow> exn + app_state"
  env_planner :: "event list \<Rightarrow> exn + string"
  env_format_error :: "exn \<Rightarrow> string"
  env_time_str :: string

text \<open>
  The agent: its settings, its \<open>AgentState\<close>, the transcript of its message manager
  (each entry with the flag "ephemeral state message") and the trace.
\<close>

record agent =
  task :: string
  use_vision :: bool
  max_failures :: int
  retry_delay :: int
  max_input_tokens :: int
  max_actions_per_step :: int
  planner_llm :: bool
  planner_interval :: int
  is_planner_reasoning :: bool
  initial_actions :: "action list"
  done_only :: bool
  n_steps :: int
  consecutive_failures :: int
  paused :: bool
  stopped :: bool
  last_result :: "action_result list"
  last_model_output :: "agent_output option"
  history :: "history_item list"
  system_message :: message
  messages :: "(message \<times> bool) list"
  trace :: "event list"


section \<open>prompts.py: the state message\<close>

definition NL :: string where
  "NL = [CHR 0x0A]"

text \<open>\<open>s.strip(chars)\<close> and \<open>s.strip()\<close>.\<close>

definition strip_chars :: "char list \<Rightarrow> string \<Rightarrow> string" where
  "strip_chars cs s =
     rev (dropWhile (\<lambda>c. c \<in> set cs) (rev (dropWhile (\<lambda>c. c \<in> set cs) s)))"

definition whitespace :: "char list" where
  "whitespace = [CHR 0x20, CHR 0x09, CHR 0x0A, CHR 0x0B, CHR 0x0C, CHR 0x0D,
                 CHR 0x1C, CHR 0x1D, CHR 0x1E, CHR 0x1F]"

definition strip_opt :: "string option \<Rightarrow> string" where
  "strip_opt d = (case d of None \<Rightarrow> [] | Some t \<Rightarrow> if t = [] then [] else strip_chars NL t)"

record agent_message_prompt =
  p_app_state :: app_state
  p_agent_history_description :: "string option"
  p_read_state_description :: "string option"
  p_task :: string
  p_step_info :: "step_info option"
  p_sensitive_data :: "string option"

definition get_agent_state_description :: "string \<Rightarrow> agent_message_prompt \<Rightarrow> string" where
  "get_agent_state_description time_str p =
     (let step_info_description =
            (case p_step_info p of
               Some si \<Rightarrow> ''Step '' @ str_int (step_number si + 1) @ '' of ''
                          @ str_int (max_steps si) @ '' max possible steps'' @ NL
             | None \<Rightarrow> []) @ ''Current date and time: '' @ time_str;
          agent_state =
            NL @ ''<user_request>'' @ NL @ p_task p @ NL @ ''</user_request>'' @ NL
            @ ''<step_info>'' @ NL @ step_info_description @ NL @ ''</step_info>'' @ NL;
          agent_state' =
            (if truthy_str (p_sensitive_data p)
             then agent_state @ ''<sensitive_data>'' @ NL @ the (p_sensitive_data p) @ NL
                  @ ''</sensitive_data>'' @ NL
             else agent_state)
      in strip_chars whitespace agent_state')"

definition get_user_message :: "string \<Rightarrow> agent_message_prompt \<Rightarrow> bool \<Rightarrow> message" where
  "get_user_message time_str p vision =
     (let state_description =
            ''<agent_history>'' @ NL @ strip_opt (p_agent_history_description p) @ NL
            @ ''</agent_history>'' @ NL
            @ ''<agent_state>'' @ NL
            @ strip_chars NL (get_agent_state_description time_str p) @ NL
            @ ''</agent_state>'' @ NL
            @ ''<app_state>'' @ NL
            @ strip_chars NL (get_app_state_description (p_app_state p)) @ NL
            @ ''</app_state>'' @ NL
            @ ''<read_state>'' @ NL @ strip_opt (p_read_state_description p) @ NL
            @ ''</read_state>'' @ NL
      in if vision \<and> truthy_str (screenshot (p_app_state p))
         then HumanImageMessage state_description
                (''data:image/png;base64,'' @ the (screenshot (p_app_state p)))
         else HumanMessage state_description)"

section \<open>The message manager\<close>

text \<open>
  Modelled from the spec: \<open>MessageManager\<close> is declared outside these sources. The spec's
  ContextManager holds a fixed system message and an ordered transcript;
  \<open>addStateMessage\<close> renders one ephemeral Human message, \<open>removeLastStateMessage\<close> pops
  the most recently staged ephemeral message, \<open>addModelOutput\<close> commits the parsed output
  as an assistant turn, \<open>addPlan(plan, position)\<close> inserts planner guidance at an offset
  from the end (\<open>-1\<close> = immediately before the last message), and \<open>getMessages\<close> returns
  the system message and the transcript. The history and read-state descriptions of the
  state message are kept by the manager and are left empty here.
\<close>

definition add_state_message :: "env \<Rightarrow> agent \<Rightarrow> app_state \<Rightarrow> step_info option \<Rightarrow> agent" where
  "add_state_message ev a st si =
     a\<lparr>messages := messages a @
          [(get_user_message (env_time_str ev)
              \<lparr>p_app_state = st, p_agent_history_description = None,
               p_read_state_description = None, p_task = task a, p_step_info = si,
               p_sensitive_data = None\<rparr> (use_vision a), True)]\<rparr>"

fun remove_first_ephemeral :: "(message \<times> bool) list \<Rightarrow> (message \<times> bool) list" where
  "remove_first_ephemeral [] = []"
| "remove_first_ephemeral ((m, e) # ms) = (if e then ms else (m, e) # remove_first_ephemeral ms)"

definition remove_last_state_message :: "agent \<Rightarrow> agent" where
  "remove_last_state_message a =
     a\<lparr>messages := rev (remove_first_ephemeral (rev (messages a)))\<rparr>"

definition add_message_with_tokens :: "agent \<Rightarrow> message \<Rightarrow> agent" where
  "add_message_with_tokens a m = a\<lparr>messages := messages a @ [(m, False)]\<rparr>"

definition add_model_output :: "agent \<Rightarrow> agent_output \<Rightarrow> agent" where
  "add_model_output a mo = add_message_with_tokens a (OutputMessage mo)"

text \<open>\<open>list.insert(i, x)\<close>: a negative index counts from the end, out-of-range ones clamp.\<close>

definition py_insert :: "'a list \<Rightarrow> int \<Rightarrow> 'a \<Rightarrow> 'a list" where
  "py_insert xs i x =
     (let n = int (length xs);
          j = (if i < 0 then max 0 (n + i) else min i n)
      in take (nat j) xs @ [x] @ drop (nat j) xs)"

definition add_plan :: "agent \<Rightarrow> string option \<Rightarrow> int \<Rightarrow> agent" where
  "add_plan a plan position =
     (case plan of
        None \<Rightarrow> a
      | Some t \<Rightarrow> a\<lparr>messages := py_insert (messages a) position (AIMessage t, False)\<rparr>)"

definition get_messages :: "agent \<Rightarrow> message list" where
  "get_messages a = system_message a # map fst (messages a)"


section \<open>service.py: one step\<close>

text \<open>\<open>sub in s\<close> for strings.\<close>

fun str_contains :: "string \<Rightarrow> string \<Rightarrow> bool" where
  "str_contains sub [] = (sub = [])"
| "str_contains sub (c # cs) = (prefix sub (c # cs) \<or> str_contains sub cs)"

definition raise_if_stopped_or_paused :: "agent \<Rightarrow> exn + unit" where
  "raise_if_stopped_or_paused a =
     (if stopped a \<or> paused a then Inl (InterruptedError []) else Inr ())"

text \<open>
  \<open>get_next_action\<close>: the call and the parsing are the environment's; a pause or stop
  request may arrive while the call is awaited; the parsed action list is then cut.
\<close>

definition cut_actions :: "int \<Rightarrow> agent_output \<Rightarrow> agent_output" where
  "cut_actions max_actions parsed =
     (if int (length (action parsed)) > max_actions
      then parsed\<lparr>action := slice_to (action parsed) max_actions\<rparr>
      else parsed)"

definition deliver_interrupt :: "interrupt option \<Rightarrow> agent \<Rightarrow> agent" where
  "deliver_interrupt i a =
     (case i of None \<Rightarrow> a | Some Pause \<Rightarrow> a\<lparr>paused := True\<rparr> | Some Stop \<Rightarrow> a\<lparr>stopped := True\<rparr>)"

definition get_next_action :: "env \<Rightarrow> agent \<Rightarrow> message list \<Rightarrow> (exn + agent_output) \<times> agent" where
  "get_next_action ev a input_messages =
     (let a1 = deliver_interrupt (env_interrupt ev (trace a))
                 (a\<lparr>trace := trace a @ [LLMCall input_messages]\<rparr>)
      in case env_llm ev (trace a) input_messages of
           Inl e \<Rightarrow> (Inl e, a1)
         | Inr parsed \<Rightarrow> (Inr (cut_actions (max_actions_per_step a) parsed), a1))"

definition is_empty_actions :: "action list \<Rightarrow> bool" where
  "is_empty_actions acts = (acts = [] \<or> list_all (\<lambda>x. x = []) acts)"

definition clarification_message :: message where
  "clarification_message = HumanMessage
     ''You forgot to return an action. Please respond only with a valid JSON action according to the expected format.''"

definition done_action :: "bool \<Rightarrow> string \<Rightarrow> action" where
  "done_action ok txt = [(''done'', [(''success'', PBool ok), (''text'', PStr txt)])]"

text \<open>
  Lines 604 to 626 of \<open>step\<close>. On an exception the value of the local variable
  \<open>model_output\<close> is returned with it (the history entry of a failed step records it).
\<close>

definition query_model ::
  "env \<Rightarrow> agent \<Rightarrow> message list \<Rightarrow> (exn \<times> agent_output option + agent_output) \<times> agent" where
  "query_model ev a input_messages =
     (case get_next_action ev a input_messages of
        (Inl e, a1) \<Rightarrow> (Inl (e, None), a1)
      | (Inr mo, a1) \<Rightarrow>
          if is_empty_actions (action mo) then
            (case get_next_action ev a1 (input_messages @ [clarification_message]) of
               (Inl e, a2) \<Rightarrow> (Inl (e, Some mo), a2)
             | (Inr mo2, a2) \<Rightarrow>
                 if is_empty_actions (action mo2)
                 then (Inr (mo2\<lparr>action := [done_action False ''No next action returned by LLM!'']\<rparr>), a2)
                 else (Inr mo2, a2))
          else (Inr mo, a1))"

text \<open>
  The inner \<open>try\<close> of \<open>step\<close> (lines 602 to 657). Saving the conversation is switched
  off (\<open>save_conversation_path\<close> is \<open>None\<close>).
\<close>

definition model_phase ::
  "env \<Rightarrow> agent \<Rightarrow> message list \<Rightarrow> (exn \<times> agent_output option + agent_output) \<times> agent" where
  "model_phase ev a input_messages =
     (case query_model ev a input_messages of
        (Inl (e, v), a1) \<Rightarrow>
          (Inl ((if e = CancelledError then InterruptedError ''Model query cancelled by user'' else e), v),
           remove_last_state_message a1)
      | (Inr mo, a1) \<Rightarrow>
          (case raise_if_stopped_or_paused a1 of
             Inl e \<Rightarrow> (Inl (e, Some mo), remove_last_state_message a1)
           | Inr _ \<Rightarrow>
               (Inr mo,
                add_model_output (remove_last_state_message (a1\<lparr>n_steps := n_steps a1 + 1\<rparr>)) mo)))"

text \<open>
  \<open>multi_act\<close>: the loop over the remaining actions, with the results so far. A pause or
  stop request may arrive while an action or the sleep after it is awaited; a cancelled
  sleep, like a cancelled action, ends the batch with \<open>InterruptedError\<close>.
\<close>

fun multi_act_loop ::
  "env \<Rightarrow> agent \<Rightarrow> action list \<Rightarrow> action_result list \<Rightarrow> (exn + action_result list) \<times> agent" where
  "multi_act_loop ev a [] results = (Inr results, a)"
| "multi_act_loop ev a (x # xs) results =
     (case raise_if_stopped_or_paused a of
        Inl e \<Rightarrow> (Inl e, a)
      | Inr _ \<Rightarrow>
          (let a1 = deliver_interrupt (env_interrupt ev (trace a))
                      (a\<lparr>trace := trace a @ [Act x]\<rparr>) in
           case env_act ev (trace a) x of
             Inl e \<Rightarrow>
               (Inl (if e = CancelledError then InterruptedError ''Action cancelled by user'' else e), a1)
           | Inr r \<Rightarrow>
               if is_done r \<or> truthy_str (error r) \<or> xs = []
               then (Inr (results @ [r]), a1)
               else
                 (let a2 = deliver_interrupt (env_interrupt ev (trace a1))
                             (a1\<lparr>trace := trace a1 @ [Sleep 500]\<rparr>) in
                  if env_sleep_cancelled ev (trace a1)
                  then (Inl (InterruptedError ''Action cancelled by user''), a2)
                  else multi_act_loop ev a2 xs (results @ [r]))))"

definition multi_act :: "env \<Rightarrow> agent \<Rightarrow> action list \<Rightarrow> (exn + action_result list) \<times> agent" where
  "multi_act ev a actions = multi_act_loop ev a actions []"

text \<open>\<open>_handle_step_error\<close>. \<open>ValidationError\<close> is a subclass of \<open>ValueError\<close>.\<close>

definition handle_step_error :: "env \<Rightarrow> agent \<Rightarrow> exn \<Rightarrow> action_result list \<times> agent" where
  "handle_step_error ev a e =
     (let error_msg = env_format_error ev e;
          a1 = a\<lparr>consecutive_failures := consecutive_failures a + 1\<rparr>
      in case e of
           ValidationError _ \<Rightarrow>
             (if str_contains ''Max token limit reached'' error_msg
              then ([error_result error_msg], a1\<lparr>max_input_tokens := max_input_tokens a1 - 500\<rparr>)
              else if str_contains ''Could not parse response'' error_msg
              then ([error_result (error_msg @ NL @ NL
                       @ ''Return a valid JSON object with the required fields.'')], a1)
              else ([error_result error_msg], a1))
         | ValueError _ \<Rightarrow>
             (if str_contains ''Max token limit reached'' error_msg
              then ([error_result error_msg], a1\<lparr>max_input_tokens := max_input_tokens a1 - 500\<rparr>)
              else if str_contains ''Could not parse response'' error_msg
              then ([error_result (error_msg @ NL @ NL
                       @ ''Return a valid JSON object with the required fields.'')], a1)
              else ([error_result error_msg], a1))
         | RateLimitError _ \<Rightarrow>
             ([error_result error_msg], a1\<lparr>trace := trace a1 @ [Sleep (retry_delay a1 * 1000)]\<rparr>)
         | _ \<Rightarrow> ([error_result error_msg], a1))"


text \<open>
  \<open>_run_planner\<close>: it returns no value. Its \<open>except Exception\<close> swallows every failure but
  a cancellation. In reasoning mode it adds the guidance itself; otherwise the answer is
  only logged.
\<close>

definition run_planner :: "env \<Rightarrow> agent \<Rightarrow> (exn + unit) \<times> agent" where
  "run_planner ev a =
     (if \<not> planner_llm a then (Inr (), a)
      else if planner_interval a = 0 then (Inl ZeroDivisionError, a)
      else if n_steps a mod planner_interval a \<noteq> 0 then (Inr (), a)
      else
        (let a1 = a\<lparr>trace := trace a @ [GetAppState]\<rparr> in
         case env_app_state ev (trace a) of
           Inl e \<Rightarrow> (if e = CancelledError then (Inl e, a1) else (Inr (), a1))
         | Inr st \<Rightarrow>
             (let a2 = a1\<lparr>trace := trace a1 @ [PlannerCall]\<rparr> in
              case env_planner ev (trace a1) of
                Inl e \<Rightarrow> (if e = CancelledError then (Inl e, a2) else (Inr (), a2))
              | Inr planner_output \<Rightarrow>
                  if is_planner_reasoning a
                  then (Inr (), add_message_with_tokens a2
                          (HumanMessage (''Strategic guidance from planner: '' @ planner_output)))
                  else (Inr (), a2))))"

text \<open>Lines 581 to 585 of \<open>step\<close>: the value of \<open>plan\<close> is what \<open>_run_planner\<close> returned.\<close>

definition planner_stage :: "env \<Rightarrow> agent \<Rightarrow> (exn + unit) \<times> agent" where
  "planner_stage ev a =
     (if planner_llm a then
        (if planner_interval a = 0 then (Inl ZeroDivisionError, a)
         else if n_steps a mod planner_interval a = 0 then
           (case run_planner ev a of
              (Inl e, a1) \<Rightarrow> (Inl e, a1)
            | (Inr _, a1) \<Rightarrow> (Inr (), add_plan a1 None (- 1)))
         else (Inr (), a))
      else (Inr (), a))"

definition DQ :: string where
  "DQ = [CHR 0x22]"

definition last_step_message :: message where
  "last_step_message = HumanMessage
     (''Now comes your last step. Use only the '' @ DQ @ ''done'' @ DQ
      @ '' action now. No other actions - so here your action sequence must have length 1.''
      @ NL @ ''If the task is not yet fully finished as requested by the user, set success in ''
      @ DQ @ ''done'' @ DQ @ '' to false!''
      @ NL @ ''If the task is fully finished, set success in '' @ DQ @ ''done'' @ DQ @ '' to true.''
      @ NL @ ''Include everything you found out for the ultimate task in the done text.'')"

definition last_step_stage :: "agent \<Rightarrow> step_info option \<Rightarrow> agent" where
  "last_step_stage a si =
     (case si of
        None \<Rightarrow> a
      | Some i \<Rightarrow>
          if is_last_step i
          then (add_message_with_tokens a last_step_message)\<lparr>done_only := True\<rparr>
          else a)"

text \<open>Lines 570 to 600: from the pause check to the input messages.\<close>

definition prepare ::
  "env \<Rightarrow> agent \<Rightarrow> step_info option \<Rightarrow> app_state \<Rightarrow> (exn + message list) \<times> agent" where
  "prepare ev a si st =
     (case raise_if_stopped_or_paused a of
        Inl e \<Rightarrow> (Inl e, a)
      | Inr _ \<Rightarrow>
          (case planner_stage ev (add_state_message ev a st si) of
             (Inl e, a2) \<Rightarrow> (Inl e, a2)
           | (Inr _, a2) \<Rightarrow>
               (let a3 = last_step_stage a2 si in (Inr (get_messages a3), a3))))"

text \<open>
  The body of the outer \<open>try\<close> of \<open>step\<close>, with the values of the local variables
  \<open>app_state\<close> and \<open>model_output\<close> when it ends. Memory is switched off
  (\<open>enable_memory\<close> is false).
\<close>

definition step_body ::
  "env \<Rightarrow> agent \<Rightarrow> step_info option \<Rightarrow>
     (exn + action_result list) \<times> agent \<times> app_state option \<times> agent_output option" where
  "step_body ev a si =
     (case env_app_state ev (trace a) of
        Inl e \<Rightarrow> (Inl e, a\<lparr>trace := trace a @ [GetAppState]\<rparr>, None, None)
      | Inr st \<Rightarrow>
          (case prepare ev (a\<lparr>trace := trace a @ [GetAppState]\<rparr>) si st of
             (Inl e, a2) \<Rightarrow> (Inl e, a2, Some st, None)
           | (Inr input_messages, a2) \<Rightarrow>
               (case model_phase ev a2 input_messages of
                  (Inl (e, v), a3) \<Rightarrow> (Inl e, a3, Some st, v)
                | (Inr mo, a3) \<Rightarrow>
                    (case multi_act ev a3 (action mo) of
                       (Inl e, a4) \<Rightarrow> (Inl e, a4, Some st, Some mo)
                     | (Inr result, a4) \<Rightarrow>
                         (Inr result,
                          a4\<lparr>last_result := result, last_model_output := Some mo,
                             consecutive_failures := 0\<rparr>,
                          Some st, Some mo)))))"

text \<open>The \<open>finally\<close> block of \<open>step\<close>, with \<open>_make_history_item\<close>.\<close>

definition step_finally ::
  "agent \<Rightarrow> agent_output option \<Rightarrow> app_state option \<Rightarrow> action_result list \<Rightarrow> agent" where
  "step_finally a mo st result =
     (if result = [] then a
      else case st of
             None \<Rightarrow> a
           | Some s \<Rightarrow>
               a\<lparr>history := history a @
                    [\<lparr>h_model_output = mo, h_result = result, h_state = s,
                      h_step_number = n_steps a\<rparr>]\<rparr>)"

text \<open>
  \<open>step\<close>. In the two interrupt handlers the local \<open>result\<close> is still empty, so the
  \<open>finally\<close> block returns at once; its \<open>return\<close> also discards the \<open>InterruptedError\<close>
  that the cancellation handler raises.
\<close>

definition step :: "env \<Rightarrow> agent \<Rightarrow> step_info option \<Rightarrow> agent" where
  "step ev a si =
     (case step_body ev a si of
        (Inr result, a1, st, mo) \<Rightarrow> step_finally a1 mo st result
      | (Inl e, a1, st, mo) \<Rightarrow>
          (case e of
             InterruptedError _ \<Rightarrow>
               a1\<lparr>last_result := [error_result
                 ''The agent was paused mid-step - the last action might need to be repeated'']\<rparr>
           | CancelledError \<Rightarrow>
               a1\<lparr>last_result := [error_result ''The agent was paused with Ctrl+C'']\<rparr>
           | _ \<Rightarrow>
               (case handle_step_error ev a1 e of
                  (result, a2) \<Rightarrow> step_finally (a2\<lparr>last_result := result\<rparr>) mo st result)))"

section \<open>service.py: the run loop\<close>

text \<open>
  Modelled from the spec: \<open>AgentHistoryList.is_done\<close> is declared outside these sources;
  it is true if the last entry's last \<open>ActionResult\<close> has \<open>is_done\<close>.
\<close>

definition history_is_done :: "history_item list \<Rightarrow> bool" where
  "history_is_done h =
     (case rev h of
        [] \<Rightarrow> False
      | item # _ \<Rightarrow> (case rev (h_result item) of [] \<Rightarrow> False | r # _ \<Rightarrow> is_done r))"

text \<open>
  How \<open>run\<close> ends: it returns (with the value of \<open>agent_run_error\<close>), it raises, or it
  stays in the polling loop of a paused agent, which only a call of \<open>resume()\<close> or
  \<open>stop()\<close> from outside ends.
\<close>

datatype run_end = Returned "string option" | Raised exn | PollsWhilePaused

text \<open>The \<open>for\<close> loop of \<open>run\<close> over the remaining step numbers; no hooks are installed.\<close>

fun run_loop :: "env \<Rightarrow> int \<Rightarrow> agent \<Rightarrow> nat list \<Rightarrow> run_end \<times> agent" where
  "run_loop ev limit a [] = (Returned (Some ''Failed to complete task in maximum steps''), a)"
| "run_loop ev limit a (i # rest) =
     (if consecutive_failures a \<ge> max_failures a
      then (Returned (Some (''Stopped due to '' @ str_int (max_failures a) @ '' consecutive failures'')), a)
      else if stopped a then (Returned (Some ''Agent stopped programmatically''), a)
      else if paused a then (PollsWhilePaused, a)
      else
        (let a1 = step ev a (Some \<lparr>step_number = int i, max_steps = limit\<rparr>) in
         if history_is_done (history a1) then (Returned None, a1)
         else run_loop ev limit a1 rest))"

definition run :: "env \<Rightarrow> agent \<Rightarrow> int \<Rightarrow> run_end \<times> agent" where
  "run ev a limit =
     (if initial_actions a \<noteq> [] then
        (case multi_act ev a (initial_actions a) of
           (Inl e, a1) \<Rightarrow> (Raised e, a1)
         | (Inr result, a1) \<Rightarrow> run_loop ev limit (a1\<lparr>last_result := result\<rparr>) [0..<nat limit])
      else run_loop ev limit a [0..<nat limit])"


section \<open>service.py: the tool calling method\<close>

datatype tool_calling_method = function_calling | tools | json_mode | raw

text \<open>The setting: \<open>'auto'\<close>, or a method requested explicitly (\<open>None\<close> is allowed).\<close>

datatype method_setting = Auto | Explicit "tool_calling_method option"

text \<open>
  The attributes of the model connection that the agent reads and writes.
  \<open>verified_tool_calling_method\<close> is \<open>None\<close> while the attribute does not exist.
\<close>

record llm =
  chat_model_library :: string
  model_name :: string
  verified_api_keys :: "bool option"
  verified_tool_calling_method :: "tool_calling_method option option"

text \<open>
  The probes: \<open>test_tool_calling_method\<close> is \<open>_test_tool_calling_method\<close>, which catches
  every exception and returns a boolean; \<open>executor_fails\<close> says that running a probe in
  the thread pool raised (\<open>gather\<close> then stores the exception); \<open>parallel_fails\<close> that the
  parallel run as a whole raised; \<open>completion_order\<close> lists the indices of the probes in
  the order in which they complete; \<open>without_tool_support\<close> is
  \<open>is_model_without_tool_support(model_name)\<close>.
\<close>

record probes =
  test_tool_calling_method :: "tool_calling_method option \<Rightarrow> bool"
  executor_fails :: "tool_calling_method \<Rightarrow> bool"
  parallel_fails :: bool
  completion_order :: "nat list"
  without_tool_support :: bool

definition lower_char :: "char \<Rightarrow> char" where
  "lower_char c =
     (case map_of (zip ''ABCDEFGHIJKLMNOPQRSTUVWXYZ'' ''abcdefghijklmnopqrstuvwxyz'') c of
        Some d \<Rightarrow> d
      | None \<Rightarrow> c)"

definition lower :: "string \<Rightarrow> string" where
  "lower s = map lower_char s"

definition any_in :: "string list \<Rightarrow> string \<Rightarrow> bool" where
  "any_in subs s = list_ex (\<lambda>m. str_contains m s) subs"

definition get_known_tool_calling_method :: "probes \<Rightarrow> llm \<Rightarrow> tool_calling_method option" where
  "get_known_tool_calling_method pr l =
     (let model_lower = lower (model_name l); lib = chat_model_library l in
      if lib = ''ChatOpenAI'' then
        (if any_in [''gpt-4'', ''gpt-3.5''] model_lower then Some function_calling
         else if any_in [''llama-4'', ''llama-3''] model_lower then Some function_calling
         else None)
      else if lib = ''ChatGroq'' then
        (if any_in [''llama-4'', ''llama-3''] model_lower then Some function_calling else None)
      else if lib = ''AzureChatOpenAI'' then
        (if str_contains ''gpt-4-'' model_lower then Some tools else Some function_calling)
      else if lib = ''ChatGoogleGenerativeAI'' then None
      else if lib = ''ChatAnthropic'' \<or> lib = ''AnthropicChat'' then
        (if any_in [''claude-3'', ''claude-2''] model_lower then Some tools else None)
      else if without_tool_support pr then Some raw
      else None)"

definition methods_to_try :: "tool_calling_method list" where
  "methods_to_try = [function_calling, tools, json_mode, raw]"

datatype probe_result = ResultTuple tool_calling_method bool | ResultException

definition test_tool_calling_method_async :: "probes \<Rightarrow> tool_calling_method \<Rightarrow> probe_result" where
  "test_tool_calling_method_async pr m =
     (if executor_fails pr m then ResultException
      else ResultTuple m (test_tool_calling_method pr (Some m)))"

text \<open>
  \<open>asyncio.gather(*tasks, return_exceptions=True)\<close>: each probe writes its outcome into
  the slot of its own task when it completes, whatever the order of completion.
\<close>

definition gather :: "probes \<Rightarrow> tool_calling_method list \<Rightarrow> probe_result option list" where
  "gather pr ms =
     fold (\<lambda>i slots. if i < length slots
                      then slots[i := Some (test_tool_calling_method_async pr (ms ! i))]
                      else slots)
       (completion_order pr) (replicate (length ms) None)"

text \<open>The loop "process results in order of preference".\<close>

fun first_success :: "tool_calling_method list \<Rightarrow> probe_result option list \<Rightarrow> tool_calling_method option" where
  "first_success (m # ms) (r # rs) =
     (case r of
        Some (ResultTuple _ True) \<Rightarrow> Some m
      | _ \<Rightarrow> first_success ms rs)"
| "first_success _ _ = None"

definition connection_failed :: exn where
  "connection_failed =
     ConnectionError ''Failed to connect to LLM. Please check your API key and network connection.''"

definition cache_method :: "llm \<Rightarrow> tool_calling_method \<Rightarrow> llm" where
  "cache_method l m = l\<lparr>verified_api_keys := Some True, verified_tool_calling_method := Some (Some m)\<rparr>"

definition detect_best_tool_calling_method ::
  "probes \<Rightarrow> llm \<Rightarrow> (exn + tool_calling_method option) \<times> llm" where
  "detect_best_tool_calling_method pr l =
     (if parallel_fails pr then
        (case find (\<lambda>m. test_tool_calling_method pr (Some m)) methods_to_try of
           Some m \<Rightarrow> (Inr (Some m), cache_method l m)
         | None \<Rightarrow> (Inl connection_failed, l))
      else
        (case first_success methods_to_try (gather pr methods_to_try) of
           Some m \<Rightarrow> (Inr (Some m), cache_method l m)
         | None \<Rightarrow> (Inl connection_failed, l)))"

definition method_name :: "tool_calling_method option \<Rightarrow> string" where
  "method_name m =
     (case m of
        None \<Rightarrow> ''None''
      | Some function_calling \<Rightarrow> ''function_calling''
      | Some tools \<Rightarrow> ''tools''
      | Some json_mode \<Rightarrow> ''json_mode''
      | Some raw \<Rightarrow> ''raw'')"

definition not_supported :: "tool_calling_method option \<Rightarrow> exn" where
  "not_supported m =
     RuntimeError (''Configured tool calling method '' @ [CHR 0x27] @ method_name m @ [CHR 0x27]
                   @ '' is not supported by the current LLM.'')"

definition set_tool_calling_method ::
  "probes \<Rightarrow> method_setting \<Rightarrow> llm \<Rightarrow> (exn + tool_calling_method option) \<times> llm" where
  "set_tool_calling_method pr setting l =
     (case setting of
        Explicit m \<Rightarrow>
          if verified_api_keys l = Some True
          then (Inr m, l\<lparr>verified_api_keys := Some True, verified_tool_calling_method := Some m\<rparr>)
          else if \<not> test_tool_calling_method pr m
          then (if m = Some raw then (Inl connection_failed, l) else (Inl (not_supported m), l))
          else (Inr m, l\<lparr>verified_tool_calling_method := Some m\<rparr>)
      | Auto \<Rightarrow>
          (case verified_tool_calling_method l of
             Some cached \<Rightarrow> (Inr cached, l)
           | None \<Rightarrow>
               (case get_known_tool_calling_method pr l of
                  Some known \<Rightarrow>
                    if verified_api_keys l = Some True
                    then (Inr (Some known), cache_method l known)
                    else if test_tool_calling_method pr (Some known)
                    then (Inr (Some known), cache_method l known)
                    else detect_best_tool_calling_method pr l
                | None \<Rightarrow> detect_best_tool_calling_method pr l)))"


text \<open>
  A probe counts as successful when the result that detection reads for it is a success:
  the test of the method is true, and running it in the thread pool did not raise
  (which matters only while the parallel run as a whole did not fail, the tests being
  repeated one after the other otherwise).
\<close>

definition probe_succeeds :: "probes \<Rightarrow> tool_calling_method \<Rightarrow> bool" where
  "probe_succeeds pr m =
     (test_tool_calling_method pr (Some m) \<and> (parallel_fails pr \<or> \<not> executor_fails pr m))"

section \<open>Reference functions for the statements\<close>

text \<open>
  The executions of a list of actions, in order, each followed by the sleep of 500 ms
  that separates it from the next one.
\<close>

definition with_sleeps :: "action list \<Rightarrow> event list" where
  "with_sleeps acts = concat (map (\<lambda>x. [Act x, Sleep 500]) acts)"

text \<open>The first answer of the model in \<open>query_model\<close> is an empty action list.\<close>

definition retry_needed :: "env \<Rightarrow> agent \<Rightarrow> message list \<Rightarrow> bool" where
  "retry_needed ev a msgs =
     (case fst (get_next_action ev a msgs) of
        Inl e \<Rightarrow> False
      | Inr mo \<Rightarrow> is_empty_actions (action mo))"

text \<open>The exceptions that the interrupt handlers of \<open>step\<close> catch.\<close>

definition is_interrupt :: "exn \<Rightarrow> bool" where
  "is_interrupt e = (case e of InterruptedError t \<Rightarrow> True | CancelledError \<Rightarrow> True | _ \<Rightarrow> False)"

text \<open>The local variable \<open>result\<close> of \<open>step\<close> when the step ends.\<close>

definition step_result :: "env \<Rightarrow> agent \<Rightarrow> step_info option \<Rightarrow> action_result list" where
  "step_result ev a si =
     (case step_body ev a si of
        (Inr result, a1, st, mo) \<Rightarrow> result
      | (Inl e, a1, st, mo) \<Rightarrow>
          if is_interrupt e then [] else fst (handle_step_error ev a1 e))"

text \<open>
  The agent and the input messages at the model call of a step, if the step reaches it
  (it does not when the snapshot fails, the agent is paused or stopped, or the planner
  stage raises).
\<close>

definition step_inputs :: "env \<Rightarrow> agent \<Rightarrow> step_info option \<Rightarrow> (agent \<times> message list) option" where
  "step_inputs ev a si =
     (case env_app_state ev (trace a) of
        Inl e \<Rightarrow> None
      | Inr st \<Rightarrow>
          (case prepare ev (a\<lparr>trace := trace a @ [GetAppState]\<rparr>) si st of
             (Inl e, a2) \<Rightarrow> None
           | (Inr input_messages, a2) \<Rightarrow> Some (a2, input_messages)))"

text \<open>The model phase of the step returns a model output (the inner \<open>try\<close> does not raise).\<close>

definition model_phase_completes :: "env \<Rightarrow> agent \<Rightarrow> step_info option \<Rightarrow> bool" where
  "model_phase_completes ev a si =
     (case step_inputs ev a si of
        None \<Rightarrow> False
      | Some (a2, input_messages) \<Rightarrow>
          (case fst (model_phase ev a2 input_messages) of Inl x \<Rightarrow> False | Inr mo \<Rightarrow> True))"

text \<open>Two agents with the same failure limit and the same history.\<close>

definition kept :: "agent \<Rightarrow> agent \<Rightarrow> bool" where
  "kept a b = (max_failures b = max_failures a \<and> history b = history a)"

text \<open>
  A failing step: the agent is neither paused nor stopped when the step starts, and the
  body of the step raises an exception other than an interrupt.
\<close>

definition failing_step :: "env \<Rightarrow> agent \<Rightarrow> step_info option \<Rightarrow> bool" where
  "failing_step ev a si =
     (\<not> paused a \<and> \<not> stopped a \<and>
      (case fst (step_body ev a si) of Inl e \<Rightarrow> \<not> is_interrupt e | Inr result \<Rightarrow> False))"

text \<open>The agent after the steps with the given numbers, one after the other.\<close>

fun run_steps :: "env \<Rightarrow> int \<Rightarrow> agent \<Rightarrow> nat list \<Rightarrow> agent" where
  "run_steps ev limit a [] = a"
| "run_steps ev limit a (i # rest) =
     run_steps ev limit (step ev a (Some \<lparr>step_number = int i, max_steps = limit\<rparr>)) rest"

text \<open>Each of these consecutive steps is a failing step.\<close>

fun all_fail :: "env \<Rightarrow> int \<Rightarrow> agent \<Rightarrow> nat list \<Rightarrow> bool" where
  "all_fail ev limit a [] = True"
| "all_fail ev limit a (i # rest) =
     (failing_step ev a (Some \<lparr>step_number = int i, max_steps = limit\<rparr>) \<and>
      all_fail ev limit (step ev a (Some \<lparr>step_number = int i, max_steps = limit\<rparr>)) rest)"

text \<open>The number of model calls in a trace.\<close>

definition count_llm_calls :: "event list \<Rightarrow> nat" where
  "count_llm_calls tr = length (filter (\<lambda>e. case e of LLMCall m \<Rightarrow> True | _ \<Rightarrow> False) tr)"

section \<open>Example inputs\<close>

definition snapshot_one :: app_state where
  "snapshot_one = \<lparr>elements_string = ''[0]<Button>OK</Button>'', pixels_above = Some 120,
                    pixels_below = Some 0, screenshot = None\<rparr>"

definition output_with :: "action list \<Rightarrow> agent_output" where
  "output_with acts = \<lparr>thinking = [], evaluation_previous_goal = [], memory = [],
                        next_goal = [], action = acts\<rparr>"

definition tap :: "int \<Rightarrow> action" where
  "tap i = [(''tap'', [(''index'', PInt i)])]"

definition ok_result :: action_result where
  "ok_result = \<lparr>is_done = False, success = None, extracted_content = Some ''ok'', error = None\<rparr>"

definition exn_text :: "exn \<Rightarrow> string" where
  "exn_text e =
     (case e of
        InterruptedError t \<Rightarrow> t | CancelledError \<Rightarrow> [] | ValidationError t \<Rightarrow> t
      | ValueError t \<Rightarrow> t | RateLimitError t \<Rightarrow> t | ZeroDivisionError \<Rightarrow> ''division by zero''
      | ConnectionError t \<Rightarrow> t | RuntimeError t \<Rightarrow> t | OtherException t \<Rightarrow> t)"

text \<open>An environment whose model always answers with three taps and whose actions succeed.\<close>

definition base_env :: env where
  "base_env = \<lparr>env_llm = (\<lambda>tr msgs. Inr (output_with [tap 1, tap 2, tap 3])),
               env_interrupt = (\<lambda>tr. None),
               env_sleep_cancelled = (\<lambda>tr. False),
               env_act = (\<lambda>tr x. Inr ok_result),
               env_app_state = (\<lambda>tr. Inr snapshot_one),
               env_planner = (\<lambda>tr. Inr ''go left''),
               env_format_error = exn_text,
               env_time_str = ''2025-01-01 00:00''\<rparr>"

definition base_agent :: agent where
  "base_agent = \<lparr>task = ''open settings'', use_vision = False, max_failures = 3, retry_delay = 10,
                 max_input_tokens = 128000, max_actions_per_step = 2, planner_llm = False,
                 planner_interval = 1, is_planner_reasoning = False, initial_actions = [],
                 done_only = False, n_steps = 1, consecutive_failures = 0, paused = False,
                 stopped = False, last_result = [], last_model_output = None, history = [],
                 system_message = SystemMessage ''system'', messages = [], trace = []\<rparr>"

definition base_llm :: llm where
  "base_llm = \<lparr>chat_model_library = ''ChatOllama'', model_name = ''Llava'',
               verified_api_keys = None, verified_tool_calling_method = None\<rparr>"

text \<open>Only \<open>json_mode\<close> and \<open>raw\<close> work; the probes complete in the order 3, 1, 0, 2.\<close>

definition base_probes :: probes where
  "base_probes = \<lparr>test_tool_calling_method = (\<lambda>m. m = Some json_mode \<or> m = Some raw),
                  executor_fails = (\<lambda>m. False), parallel_fails = False,
                  completion_order = [3, 1, 0, 2], without_tool_support = False\<rparr>"

text \<open>A controller whose second tap reports an error.\<close>

definition error_on_second :: "action \<Rightarrow> action_result" where
  "error_on_second x = (if x = tap 2 then error_result ''element not found'' else ok_result)"

text \<open>A controller whose second call, whatever the action, reports an error.\<close>

definition error_on_second_call :: "event list \<Rightarrow> action \<Rightarrow> exn + action_result" where
  "error_on_second_call tr x =
     (if length (filter (\<lambda>e. case e of Act y \<Rightarrow> True | _ \<Rightarrow> False) tr) = 1
      then Inr \<lparr>is_done = False, success = None, extracted_content = None,
               error = Some ''element not found''\<rparr>
      else Inr \<lparr>is_done = False, success = None, extracted_content = Some ''ok'', error = None\<rparr>)"


text \<open>Environments in which the model call fails, every action raises, a pause arrives
  during the model call, and the second tap reports an error.\<close>

definition failing_llm_env :: env where
  "failing_llm_env = base_env\<lparr>env_llm := (\<lambda>tr msgs. Inl (ValueError ''Could not parse response.''))\<rparr>"

definition failing_act_env :: env where
  "failing_act_env = base_env\<lparr>env_act := (\<lambda>tr x. Inl (OtherException ''driver lost''))\<rparr>"

definition pausing_env :: env where
  "pausing_env = base_env\<lparr>env_interrupt := (\<lambda>tr. Some Pause)\<rparr>"

definition error_result_env :: env where
  "error_result_env = base_env\<lparr>env_act := (\<lambda>tr x. Inr (error_on_second x))\<rparr>"

text \<open>An agent with a planner in reasoning mode, consulted at every step.\<close>

definition planner_agent :: agent where
  "planner_agent = base_agent\<lparr>planner_llm := True, is_planner_reasoning := True\<rparr>"

section \<open>Properties\<close>

subsection \<open>Helper lemmas\<close>

lemma str_nat_120: "str_nat 120 = ''120''"
  by (simp add: str_nat.simps digit_char_def)

lemma trace_deliver_interrupt [simp]: "trace (deliver_interrupt i a) = trace a"
  by (simp add: deliver_interrupt_def split: option.splits interrupt.splits)

lemma slice_to_nonneg: "0 \<le> k \<Longrightarrow> slice_to xs k = take (nat k) xs"
  by (simp add: slice_to_def)

lemma gather_fold_length:
  "length (fold (\<lambda>i slots. if i < length slots then slots[i := Some (f i)] else slots) order slots)
     = length slots"
  by (induction order arbitrary: slots) auto

lemma gather_fold_nth:
  "i < length slots \<Longrightarrow>
   (fold (\<lambda>i slots. if i < length slots then slots[i := Some (f i)] else slots) order slots) ! i
     = (if i \<in> set order then Some (f i) else slots ! i)"
proof (induction order arbitrary: slots)
  case Nil
  then show ?case by simp
next
  case (Cons x xs)
  let ?s = "if x < length slots then slots[x := Some (f x)] else slots"
  have len: "i < length ?s" using Cons.prems by simp
  from Cons.IH [OF len] show ?case using Cons.prems by (auto simp: nth_list_update)
qed

lemma gather_all:
  assumes "set (completion_order pr) = {0..<length ms}"
  shows "gather pr ms = map (\<lambda>m. Some (test_tool_calling_method_async pr m)) ms"
proof (rule nth_equalityI)
  show "length (gather pr ms) = length (map (\<lambda>m. Some (test_tool_calling_method_async pr m)) ms)"
    by (simp add: gather_def gather_fold_length)
next
  fix i assume "i < length (gather pr ms)"
  then have i: "i < length ms"
    by (simp add: gather_def gather_fold_length)
  then show "gather pr ms ! i = map (\<lambda>m. Some (test_tool_calling_method_async pr m)) ms ! i"
    using assms by (simp add: gather_def gather_fold_nth)
qed

lemma first_success_find:
  "first_success ms (map (\<lambda>m. Some (test_tool_calling_method_async pr m)) ms)
     = find (\<lambda>m. \<not> executor_fails pr m \<and> test_tool_calling_method pr (Some m)) ms"
  by (induction ms) (auto simp: test_tool_calling_method_async_def)

subsection \<open>Truncation of the action list\<close>

text \<open>
  C2. For a configured maximum that is a count (not negative): whenever the model call
  and parsing give a parsed output, \<open>get_next_action\<close> returns an output (it never
  rejects it for its length); with at most \<open>max_actions_per_step\<close> actions the output is
  returned unchanged, with more its action list is exactly the first
  \<open>max_actions_per_step\<close> entries, the tail dropped and the other fields kept.
\<close>

theorem get_next_action_truncates:
  assumes "0 \<le> max_actions_per_step a" and "env_llm ev (trace a) msgs = Inr parsed"
  shows "fst (get_next_action ev a msgs) =
           Inr (if int (length (action parsed)) \<le> max_actions_per_step a then parsed
                else parsed\<lparr>action := take (nat (max_actions_per_step a)) (action parsed)\<rparr>)
         \<and> (int (length (action parsed)) > max_actions_per_step a \<longrightarrow>
              length (take (nat (max_actions_per_step a)) (action parsed))
                = nat (max_actions_per_step a))"
  using assms by (auto simp add: get_next_action_def cut_actions_def slice_to_nonneg Let_def)

theorem get_next_action_truncates_witness:
  "fst (get_next_action base_env base_agent []) = Inr (output_with [tap 1, tap 2])"
  using get_next_action_truncates [of base_agent base_env "[]" "output_with [tap 1, tap 2, tap 3]"]
  by (simp add: base_agent_def base_env_def output_with_def)

subsection \<open>Negotiation of the tool calling method\<close>

lemma detect_result:
  assumes "set (completion_order pr) = {0..<4}"
  shows "detect_best_tool_calling_method pr l =
           (case find (probe_succeeds pr) [function_calling, tools, json_mode, raw] of
              Some m \<Rightarrow>
                (Inr (Some m),
                 l\<lparr>verified_api_keys := Some True, verified_tool_calling_method := Some (Some m)\<rparr>)
            | None \<Rightarrow>
                (Inl (ConnectionError
                   ''Failed to connect to LLM. Please check your API key and network connection.''), l))"
proof -
  have len: "length methods_to_try = 4" by (simp add: methods_to_try_def)
  have g: "gather pr methods_to_try
             = map (\<lambda>m. Some (test_tool_calling_method_async pr m)) methods_to_try"
    using assms by (intro gather_all) (simp add: len)
  have ps: "probe_succeeds pr =
              (if parallel_fails pr then (\<lambda>m. test_tool_calling_method pr (Some m))
               else (\<lambda>m. \<not> executor_fails pr m \<and> test_tool_calling_method pr (Some m)))"
    by (auto simp: probe_succeeds_def)
  have mt: "[function_calling, tools, json_mode, raw] = methods_to_try"
    by (simp add: methods_to_try_def)
  show ?thesis
    unfolding mt
    by (simp add: detect_best_tool_calling_method_def g first_success_find ps cache_method_def
          connection_failed_def split: option.splits)
qed

text \<open>
  C6. When full detection runs (setting \<open>auto\<close>, nothing cached on the connection, and
  the known method absent or untrusted and failing its probe), then for every order in
  which the four probes complete the method returned is the first of
  \<open>[function_calling, tools, json_mode, raw]\<close> whose probe succeeded, and it is cached:
  the connection afterwards carries it as its verified method (and is marked verified),
  so that any later negotiation on this connection returns the same method whatever the
  probes would say. If no probe succeeded, detection fails with \<open>ConnectionError\<close> and
  the connection is left as it was.
\<close>

theorem detection_prefers_order:
  assumes "verified_tool_calling_method l = None"
    and "get_known_tool_calling_method pr l = None \<or>
         (verified_api_keys l \<noteq> Some True \<and>
          \<not> test_tool_calling_method pr (get_known_tool_calling_method pr l))"
    and "set (completion_order pr) = {0..<4}"
  shows "set_tool_calling_method pr Auto l =
           (case find (probe_succeeds pr) [function_calling, tools, json_mode, raw] of
              Some m \<Rightarrow>
                (Inr (Some m),
                 l\<lparr>verified_api_keys := Some True, verified_tool_calling_method := Some (Some m)\<rparr>)
            | None \<Rightarrow>
                (Inl (ConnectionError
                   ''Failed to connect to LLM. Please check your API key and network connection.''), l))
         \<and> (\<forall>m l'. set_tool_calling_method pr Auto l = (Inr (Some m), l') \<longrightarrow>
               verified_tool_calling_method l' = Some (Some m) \<and>
               verified_api_keys l' = Some True \<and>
               (\<forall>pr'. set_tool_calling_method pr' Auto l' = (Inr (Some m), l')))"
proof -
  have d: "set_tool_calling_method pr Auto l = detect_best_tool_calling_method pr l"
    using assms(1,2) by (auto simp add: set_tool_calling_method_def split: option.splits)
  have 1: "set_tool_calling_method pr Auto l =
           (case find (probe_succeeds pr) [function_calling, tools, json_mode, raw] of
              Some m \<Rightarrow>
                (Inr (Some m),
                 l\<lparr>verified_api_keys := Some True, verified_tool_calling_method := Some (Some m)\<rparr>)
            | None \<Rightarrow>
                (Inl (ConnectionError
                   ''Failed to connect to LLM. Please check your API key and network connection.''), l))"
    using d detect_result [OF assms(3), of l] by simp
  have 2: "verified_tool_calling_method l' = Some (Some m) \<and>
               verified_api_keys l' = Some True \<and>
               (\<forall>pr'. set_tool_calling_method pr' Auto l' = (Inr (Some m), l'))"
    if "set_tool_calling_method pr Auto l = (Inr (Some m), l')" for m l'
  proof -
    from that 1 have l': "l' = l\<lparr>verified_api_keys := Some True,
                                   verified_tool_calling_method := Some (Some m)\<rparr>"
      by (auto split: option.splits)
    then show ?thesis by (simp add: set_tool_calling_method_def)
  qed
  from 1 2 show ?thesis by blast
qed

theorem detection_prefers_order_witness:
  "set_tool_calling_method base_probes Auto base_llm
     = (Inr (Some json_mode),
        \<lparr>chat_model_library = ''ChatOllama'', model_name = ''Llava'',
         verified_api_keys = Some True, verified_tool_calling_method = Some (Some json_mode)\<rparr>)
   \<and> set_tool_calling_method (base_probes\<lparr>test_tool_calling_method := (\<lambda>m. False)\<rparr>) Auto base_llm
     = (Inl (ConnectionError
          ''Failed to connect to LLM. Please check your API key and network connection.''),
        \<lparr>chat_model_library = ''ChatOllama'', model_name = ''Llava'',
         verified_api_keys = None, verified_tool_calling_method = None\<rparr>)
   \<and> set_tool_calling_method (base_probes\<lparr>test_tool_calling_method := (\<lambda>m. False)\<rparr>) Auto
        \<lparr>chat_model_library = ''ChatOllama'', model_name = ''Llava'',
         verified_api_keys = Some True, verified_tool_calling_method = Some (Some json_mode)\<rparr>
     = (Inr (Some json_mode),
        \<lparr>chat_model_library = ''ChatOllama'', model_name = ''Llava'',
         verified_api_keys = Some True, verified_tool_calling_method = Some (Some json_mode)\<rparr>)"
proof -
  let ?none = "base_probes\<lparr>test_tool_calling_method := (\<lambda>m. False)\<rparr>"
  have k: "get_known_tool_calling_method pr base_llm = None" if "\<not> without_tool_support pr" for pr
    using that by (simp add: get_known_tool_calling_method_def base_llm_def)
  have o: "set [3, 1, 0, 2] = {0..<4::nat}" by auto
  have c: "verified_tool_calling_method base_llm = None" by (simp add: base_llm_def)
  have k1: "get_known_tool_calling_method base_probes base_llm = None \<or>
         (verified_api_keys base_llm \<noteq> Some True \<and>
          \<not> test_tool_calling_method base_probes (get_known_tool_calling_method base_probes base_llm))"
    using k [of base_probes] by (simp add: base_probes_def)
  have k2: "get_known_tool_calling_method ?none base_llm = None \<or>
         (verified_api_keys base_llm \<noteq> Some True \<and>
          \<not> test_tool_calling_method ?none (get_known_tool_calling_method ?none base_llm))"
    using k [of ?none] by (simp add: base_probes_def)
  have o1: "set (completion_order base_probes) = {0..<4}" using o by (simp add: base_probes_def)
  have o2: "set (completion_order ?none) = {0..<4}" using o by (simp add: base_probes_def)
  have f1: "find (probe_succeeds base_probes) [function_calling, tools, json_mode, raw] = Some json_mode"
    by (simp add: probe_succeeds_def base_probes_def)
  have f2: "find (probe_succeeds ?none) [function_calling, tools, json_mode, raw] = None"
    by (simp add: probe_succeeds_def base_probes_def)
  note t1 = detection_prefers_order [OF c k1 o1]
  note t2 = detection_prefers_order [OF c k2 o2]
  have r1: "set_tool_calling_method base_probes Auto base_llm
     = (Inr (Some json_mode),
        \<lparr>chat_model_library = ''ChatOllama'', model_name = ''Llava'',
         verified_api_keys = Some True, verified_tool_calling_method = Some (Some json_mode)\<rparr>)"
    using t1 f1 by (simp add: base_llm_def)
  have r2: "set_tool_calling_method ?none Auto base_llm
     = (Inl (ConnectionError
          ''Failed to connect to LLM. Please check your API key and network connection.''),
        \<lparr>chat_model_library = ''ChatOllama'', model_name = ''Llava'',
         verified_api_keys = None, verified_tool_calling_method = None\<rparr>)"
    using t2 f2 by (simp add: base_llm_def)
  have r3: "set_tool_calling_method ?none Auto
        \<lparr>chat_model_library = ''ChatOllama'', model_name = ''Llava'',
         verified_api_keys = Some True, verified_tool_calling_method = Some (Some json_mode)\<rparr>
     = (Inr (Some json_mode),
        \<lparr>chat_model_library = ''ChatOllama'', model_name = ''Llava'',
         verified_api_keys = Some True, verified_tool_calling_method = Some (Some json_mode)\<rparr>)"
    using t1 r1 by blast
  from r1 r2 r3 show ?thesis by blast
qed



subsection \<open>The rendered element summary\<close>

text \<open>
  C8, as stated, fails: with one element, 120 pixels above and none below, neither the
  element summary nor the whole description starts with \<open>... 120 pixels above ...\<close>
  (the marker goes on with "- scroll or extract content to see more").
\<close>

theorem rendered_prefix_counterexample:
  "\<not> prefix ''... 120 pixels above ...'' (elements_text snapshot_one)
   \<and> \<not> prefix ''... 120 pixels above ...'' (get_app_state_description snapshot_one)"
  by (simp add: snapshot_one_def get_app_state_description_def elements_text_def
        str_opt_int_def str_int_def str_nat_120)

text \<open>
  C8, amended. With no interactive element the element summary equals \<open>empty page\<close>. With
  at least one element, 120 pixels above and none below, the summary is the line
  \<open>... 120 pixels above - scroll or extract content to see more ...\<close>, the elements, and
  the line \<open>[End of page]\<close>. The description is the summary under a fixed heading line.
\<close>

theorem rendered_element_summary:
  "(elements_string st = [] \<longrightarrow> elements_text st = ''empty page'') \<and>
   (elements_string st \<noteq> [] \<and> pixels_above st = Some 120 \<and> or_zero (pixels_below st) = 0 \<longrightarrow>
      elements_text st =
        ''... 120 pixels above - scroll or extract content to see more ...'' @ NL
        @ elements_string st @ NL @ ''[End of page]'') \<and>
   get_app_state_description st =
     ''Interactive elements from top layer of the current page inside the viewport:'' @ NL
     @ elements_text st"
  by (simp add: get_app_state_description_def elements_text_def str_opt_int_def str_int_def
        str_nat_120 NL_def)

theorem rendered_element_summary_witness:
  "elements_text snapshot_one =
     ''... 120 pixels above - scroll or extract content to see more ...'' @ NL
     @ ''[0]<Button>OK</Button>'' @ NL @ ''[End of page]''
   \<and> elements_text (snapshot_one\<lparr>elements_string := []\<rparr>) = ''empty page''"
  using rendered_element_summary [of snapshot_one]
    rendered_element_summary [of "snapshot_one\<lparr>elements_string := []\<rparr>"]
  by (simp add: snapshot_one_def)

subsection \<open>Execution of an action batch\<close>

lemma with_sleeps_simps [simp]:
  "with_sleeps [] = []"
  "with_sleeps (x # xs) = Act x # Sleep 500 # with_sleeps xs"
  by (simp_all add: with_sleeps_def)

lemma with_sleeps_empty [simp]: "with_sleeps xs = [] \<longleftrightarrow> xs = []"
  by (cases xs) simp_all

lemma multi_act_loop_general:
  assumes "multi_act_loop ev a acts acc = (r, a')"
  shows "\<exists>sfx. trace a' = trace a @ sfx \<and> prefix sfx (with_sleeps acts) \<and>
           (case r of
              Inl e \<Rightarrow> True
            | Inr rs \<Rightarrow>
                (\<exists>new. rs = acc @ new \<and> length new \<le> length acts \<and> (acts \<noteq> [] \<longrightarrow> new \<noteq> []) \<and>
                   sfx = butlast (with_sleeps (take (length new) acts)) \<and>
                   (\<forall>i<length new.
                      env_act ev (trace a @ with_sleeps (take i acts)) (acts ! i) = Inr (new ! i)) \<and>
                   (\<forall>i<length new.
                      (is_done (new ! i) \<or> (\<exists>m. error (new ! i) = Some m \<and> m \<noteq> []) \<or>
                       Suc i = length acts) \<longleftrightarrow> Suc i = length new)))"
  using assms
proof (induction acts arbitrary: a acc)
  case Nil
  then show ?case by auto
next
  case (Cons x xs)
  show ?case
  proof (cases "stopped a \<or> paused a")
    case True
    then have "r = Inl (InterruptedError [])" "a' = a"
      using Cons.prems by (auto simp add: raise_if_stopped_or_paused_def)
    then show ?thesis by (intro exI [of _ "[]"]) simp
  next
    case False
    let ?a1 = "deliver_interrupt (env_interrupt ev (trace a)) (a\<lparr>trace := trace a @ [Act x]\<rparr>)"
    have t1: "trace ?a1 = trace a @ [Act x]" by simp
    show ?thesis
    proof (cases "env_act ev (trace a) x")
      case (Inl e)
      then have "a' = ?a1" "\<exists>e'. r = Inl e'"
        using Cons.prems False by (auto simp add: raise_if_stopped_or_paused_def Let_def)
      then show ?thesis using t1 by (intro exI [of _ "[Act x]"]) auto
    next
      case (Inr res)
      have tr: "truthy_str (error res) \<longleftrightarrow> (\<exists>m. error res = Some m \<and> m \<noteq> [])"
        by (cases "error res") simp_all
      show ?thesis
      proof (cases "is_done res \<or> truthy_str (error res) \<or> xs = []")
        case True
        then have "a' = ?a1" "r = Inr (acc @ [res])"
          using Cons.prems False Inr by (auto simp add: raise_if_stopped_or_paused_def Let_def)
        then show ?thesis using True t1 Inr tr
          by (intro exI [of _ "[Act x]"]) auto
      next
        case nostop: False
        let ?a2 = "deliver_interrupt (env_interrupt ev (trace ?a1)) (?a1\<lparr>trace := trace ?a1 @ [Sleep 500]\<rparr>)"
        have t2: "trace ?a2 = trace a @ [Act x, Sleep 500]" by simp
        show ?thesis
        proof (cases "env_sleep_cancelled ev (trace ?a1)")
          case True
          then have "a' = ?a2" "\<exists>e'. r = Inl e'"
            using Cons.prems False Inr nostop
            by (auto simp add: raise_if_stopped_or_paused_def Let_def)
          then show ?thesis using t2 by (intro exI [of _ "[Act x, Sleep 500]"]) auto
        next
          case nc: False
          have rec: "multi_act_loop ev ?a2 xs (acc @ [res]) = (r, a')"
            using Cons.prems False Inr nostop nc
            by (simp add: raise_if_stopped_or_paused_def Let_def)
          from Cons.IH [OF rec] obtain sfx where
            t: "trace a' = trace ?a2 @ sfx" and p: "prefix sfx (with_sleeps xs)"
            and c: "(case r of
              Inl e \<Rightarrow> True
            | Inr rs \<Rightarrow>
                (\<exists>new. rs = (acc @ [res]) @ new \<and> length new \<le> length xs \<and> (xs \<noteq> [] \<longrightarrow> new \<noteq> []) \<and>
                   sfx = butlast (with_sleeps (take (length new) xs)) \<and>
                   (\<forall>i<length new.
                      env_act ev (trace ?a2 @ with_sleeps (take i xs)) (xs ! i) = Inr (new ! i)) \<and>
                   (\<forall>i<length new.
                      (is_done (new ! i) \<or> (\<exists>m. error (new ! i) = Some m \<and> m \<noteq> []) \<or>
                       Suc i = length xs) \<longleftrightarrow> Suc i = length new)))"
            by blast
          have goal: "(case r of
              Inl e \<Rightarrow> True
            | Inr rs \<Rightarrow>
                (\<exists>new. rs = acc @ new \<and> length new \<le> length (x # xs) \<and> (x # xs \<noteq> [] \<longrightarrow> new \<noteq> []) \<and>
                   Act x # Sleep 500 # sfx = butlast (with_sleeps (take (length new) (x # xs))) \<and>
                   (\<forall>i<length new.
                      env_act ev (trace a @ with_sleeps (take i (x # xs))) ((x # xs) ! i) = Inr (new ! i)) \<and>
                   (\<forall>i<length new.
                      (is_done (new ! i) \<or> (\<exists>m. error (new ! i) = Some m \<and> m \<noteq> []) \<or>
                       Suc i = length (x # xs)) \<longleftrightarrow> Suc i = length new)))"
          proof (cases r)
            case (Inl e)
            then show ?thesis by simp
          next
            case r: (Inr rs)
            from c r obtain new where
              rs: "rs = (acc @ [res]) @ new" and len: "length new \<le> length xs"
              and ne: "new \<noteq> []"
              and sf: "sfx = butlast (with_sleeps (take (length new) xs))"
              and ea: "\<forall>i<length new.
                      env_act ev (trace ?a2 @ with_sleeps (take i xs)) (xs ! i) = Inr (new ! i)"
              and st: "\<forall>i<length new.
                      (is_done (new ! i) \<or> (\<exists>m. error (new ! i) = Some m \<and> m \<noteq> []) \<or>
                       Suc i = length xs) \<longleftrightarrow> Suc i = length new"
              using nostop by auto
            have xsne: "xs \<noteq> []" using nostop by simp
            have tne: "with_sleeps (take (length new) xs) \<noteq> []" using ne xsne by simp
            have 1: "Act x # Sleep 500 # sfx
                       = butlast (with_sleeps (take (length (res # new)) (x # xs)))"
              using sf tne by simp
            have 2: "env_act ev (trace a @ with_sleeps (take i (x # xs))) ((x # xs) ! i)
                       = Inr ((res # new) ! i)" if "i < length (res # new)" for i
            proof (cases i)
              case 0
              then show ?thesis using Inr by simp
            next
              case (Suc j)
              then have "j < length new" using that by simp
              then show ?thesis using ea Suc t2 by simp
            qed
            have 3: "(is_done ((res # new) ! i) \<or> (\<exists>m. error ((res # new) ! i) = Some m \<and> m \<noteq> []) \<or>
                       Suc i = length (x # xs)) \<longleftrightarrow> Suc i = length (res # new)"
              if "i < length (res # new)" for i
            proof (cases i)
              case 0
              then show ?thesis using nostop tr ne by simp
            next
              case (Suc j)
              then have "j < length new" using that by simp
              then show ?thesis using st Suc by simp
            qed
            show ?thesis using r rs len 1 2 3
              by (auto intro!: exI [of _ "res # new"])
          qed
          show ?thesis using t t2 p goal
            by (intro exI [of _ "Act x # Sleep 500 # sfx"]) simp
        qed
      qed
    qed
  qed
qed


lemma multi_act_loop_quiet:
  assumes "\<not> stopped a" and "\<not> paused a"
    and "\<forall>tr. env_interrupt ev tr = None"
    and "\<forall>tr. \<not> env_sleep_cancelled ev tr"
    and "\<forall>tr x. \<exists>res. env_act ev tr x = Inr res"
  shows "\<exists>rs. fst (multi_act_loop ev a acts acc) = Inr rs"
  using assms(1,2)
proof (induction acts arbitrary: a acc)
  case Nil
  then show ?case by simp
next
  case (Cons x xs)
  obtain res where res: "env_act ev (trace a) x = Inr res" using assms(5) by blast
  have i: "env_interrupt ev tr = None" for tr using assms(3) by simp
  have nc: "\<not> env_sleep_cancelled ev tr" for tr using assms(4) by simp
  let ?a2 = "a\<lparr>trace := trace a @ [Act x, Sleep 500]\<rparr>"
  have "\<exists>rs. fst (multi_act_loop ev ?a2 xs (acc @ [res])) = Inr rs"
    using Cons.prems by (intro Cons.IH) simp_all
  then show ?case using Cons.prems res i nc
    by (auto simp add: raise_if_stopped_or_paused_def deliver_interrupt_def Let_def)
qed

text \<open>
  C4. For every action list, every controller and every agent: whatever \<open>multi_act\<close>
  does to the outside world is an initial part of "first action, sleep of 500 ms,
  second action, sleep of 500 ms, ...", so the actions run in the order of the batch and
  one sleep of 500 ms separates two successive executions. When \<open>multi_act\<close> returns its
  results, it has executed exactly as many actions as it returns results and stopped
  right after the last of them; each result is what the controller answered for the
  action of that position; and a result is the last one exactly when it is done, or
  carries an error, or belongs to the last action of the batch, so every action after
  the first such result is skipped. It does return results when the agent is neither
  paused nor stopped, no pause, stop or cancellation arrives, and the controller answers
  every action. For a batch of three whose second action reports an error, two results
  are returned and the third action does not run.
\<close>

theorem multi_act_stops_at_first:
  assumes "multi_act ev a acts = (r, a')"
  shows "(\<exists>sfx. trace a' = trace a @ sfx \<and> prefix sfx (with_sleeps acts) \<and>
           (case r of
              Inl e \<Rightarrow> True
            | Inr rs \<Rightarrow>
                length rs \<le> length acts \<and> (acts \<noteq> [] \<longrightarrow> rs \<noteq> []) \<and>
                sfx = butlast (with_sleeps (take (length rs) acts)) \<and>
                (\<forall>i<length rs.
                   env_act ev (trace a @ with_sleeps (take i acts)) (acts ! i) = Inr (rs ! i)) \<and>
                (\<forall>i<length rs.
                   (is_done (rs ! i) \<or> (\<exists>m. error (rs ! i) = Some m \<and> m \<noteq> []) \<or>
                    Suc i = length acts) \<longleftrightarrow> Suc i = length rs)))
         \<and> (\<not> stopped a \<and> \<not> paused a \<and> (\<forall>tr. env_interrupt ev tr = None) \<and>
            (\<forall>tr. \<not> env_sleep_cancelled ev tr) \<and> (\<forall>tr x. \<exists>res. env_act ev tr x = Inr res)
            \<longrightarrow> (\<exists>rs. r = Inr rs))"
proof (rule conjI)
  show "\<exists>sfx. trace a' = trace a @ sfx \<and> prefix sfx (with_sleeps acts) \<and>
           (case r of
              Inl e \<Rightarrow> True
            | Inr rs \<Rightarrow>
                length rs \<le> length acts \<and> (acts \<noteq> [] \<longrightarrow> rs \<noteq> []) \<and>
                sfx = butlast (with_sleeps (take (length rs) acts)) \<and>
                (\<forall>i<length rs.
                   env_act ev (trace a @ with_sleeps (take i acts)) (acts ! i) = Inr (rs ! i)) \<and>
                (\<forall>i<length rs.
                   (is_done (rs ! i) \<or> (\<exists>m. error (rs ! i) = Some m \<and> m \<noteq> []) \<or>
                    Suc i = length acts) \<longleftrightarrow> Suc i = length rs))"
    using multi_act_loop_general [of ev a acts "[]" r a'] assms
    by (cases r) (auto simp add: multi_act_def)
next
  show "\<not> stopped a \<and> \<not> paused a \<and> (\<forall>tr. env_interrupt ev tr = None) \<and>
            (\<forall>tr. \<not> env_sleep_cancelled ev tr) \<and> (\<forall>tr x. \<exists>res. env_act ev tr x = Inr res)
            \<longrightarrow> (\<exists>rs. r = Inr rs)"
    using multi_act_loop_quiet [of a ev acts "[]"] assms by (auto simp add: multi_act_def)
qed

theorem multi_act_stops_at_first_witness:
  "multi_act (base_env\<lparr>env_act := error_on_second_call\<rparr>) base_agent [tap 1, tap 1, tap 1]
     = (Inr [\<lparr>is_done = False, success = None, extracted_content = Some ''ok'', error = None\<rparr>,
             \<lparr>is_done = False, success = None, extracted_content = None,
              error = Some ''element not found''\<rparr>],
        base_agent\<lparr>trace := [Act [(''tap'', [(''index'', PInt 1)])], Sleep 500,
                              Act [(''tap'', [(''index'', PInt 1)])]]\<rparr>)
   \<and> (\<exists>sfx. trace (base_agent\<lparr>trace := [Act [(''tap'', [(''index'', PInt 1)])], Sleep 500,
                                          Act [(''tap'', [(''index'', PInt 1)])]]\<rparr>)
              = trace base_agent @ sfx \<and>
            prefix sfx (with_sleeps [tap 1, tap 1, tap 1]))
   \<and> multi_act error_result_env base_agent [tap 1, tap 2, tap 3]
     = (Inr [\<lparr>is_done = False, success = None, extracted_content = Some ''ok'', error = None\<rparr>,
             \<lparr>is_done = False, success = None, extracted_content = None,
              error = Some ''element not found''\<rparr>],
        base_agent\<lparr>trace := [Act [(''tap'', [(''index'', PInt 1)])], Sleep 500,
                              Act [(''tap'', [(''index'', PInt 2)])]]\<rparr>)
   \<and> multi_act
        (base_env\<lparr>env_interrupt :=
           (\<lambda>tr. if tr = [Act [(''tap'', [(''index'', PInt 1)])]] then Some Pause else None)\<rparr>)
        base_agent [tap 1, tap 2]
     = (Inl (InterruptedError []),
        base_agent\<lparr>paused := True,
                     trace := [Act [(''tap'', [(''index'', PInt 1)])], Sleep 500]\<rparr>)"
proof -
  let ?r = "Inr [\<lparr>is_done = False, success = None, extracted_content = Some ''ok'', error = None\<rparr>,
             \<lparr>is_done = False, success = None, extracted_content = None,
              error = Some ''element not found''\<rparr>]"
  let ?a = "base_agent\<lparr>trace := [Act [(''tap'', [(''index'', PInt 1)])], Sleep 500,
                              Act [(''tap'', [(''index'', PInt 1)])]]\<rparr>"
  have h: "multi_act (base_env\<lparr>env_act := error_on_second_call\<rparr>) base_agent [tap 1, tap 1, tap 1]
             = (?r, ?a)"
    by code_simp
  from multi_act_stops_at_first [OF h] have p:
    "\<exists>sfx. trace ?a = trace base_agent @ sfx \<and> prefix sfx (with_sleeps [tap 1, tap 1, tap 1])"
    by blast
  have q: "multi_act error_result_env base_agent [tap 1, tap 2, tap 3]
     = (Inr [\<lparr>is_done = False, success = None, extracted_content = Some ''ok'', error = None\<rparr>,
             \<lparr>is_done = False, success = None, extracted_content = None,
              error = Some ''element not found''\<rparr>],
        base_agent\<lparr>trace := [Act [(''tap'', [(''index'', PInt 1)])], Sleep 500,
                              Act [(''tap'', [(''index'', PInt 2)])]]\<rparr>)"
    by code_simp
  have i: "multi_act
        (base_env\<lparr>env_interrupt :=
           (\<lambda>tr. if tr = [Act [(''tap'', [(''index'', PInt 1)])]] then Some Pause else None)\<rparr>)
        base_agent [tap 1, tap 2]
     = (Inl (InterruptedError []),
        base_agent\<lparr>paused := True,
                     trace := [Act [(''tap'', [(''index'', PInt 1)])], Sleep 500]\<rparr>)"
    by code_simp
  from h p q i show ?thesis by blast
qed

subsection \<open>Empty model outputs\<close>

lemma trace_get_next_action:
  "trace (snd (get_next_action ev a msgs)) = trace a @ [LLMCall msgs]"
  by (simp add: get_next_action_def Let_def split: sum.splits)

lemma trace_query_model:
  "trace (snd (query_model ev a msgs)) =
     trace a @ LLMCall msgs #
       (if retry_needed ev a msgs then [LLMCall (msgs @ [clarification_message])] else [])"
proof (cases "get_next_action ev a msgs")
  case (Pair r a1)
  have t1: "trace a1 = trace a @ [LLMCall msgs]"
    using trace_get_next_action [of ev a msgs] Pair by simp
  show ?thesis
  proof (cases r)
    case (Inl e)
    then show ?thesis using Pair t1 by (simp add: query_model_def retry_needed_def)
  next
    case (Inr mo)
    show ?thesis
    proof (cases "get_next_action ev a1 (msgs @ [clarification_message])")
      case (Pair r2 a2)
      have t2: "trace a2 = trace a1 @ [LLMCall (msgs @ [clarification_message])]"
        using trace_get_next_action [of ev a1 "msgs @ [clarification_message]"] Pair by simp
      show ?thesis using \<open>get_next_action ev a msgs = (r, a1)\<close> Inr Pair t1 t2
        by (simp add: query_model_def retry_needed_def split: sum.splits)
    qed
  qed
qed




subsection \<open>The counters of a step\<close>

lemma counters_deliver_interrupt [simp]:
  "n_steps (deliver_interrupt i a) = n_steps a"
  "consecutive_failures (deliver_interrupt i a) = consecutive_failures a"
  by (simp_all add: deliver_interrupt_def split: option.splits interrupt.splits)

lemma counters_get_next_action [simp]:
  "n_steps (snd (get_next_action ev a msgs)) = n_steps a"
  "consecutive_failures (snd (get_next_action ev a msgs)) = consecutive_failures a"
  by (simp_all add: get_next_action_def Let_def split: sum.splits)

lemma counters_query_model [simp]:
  "n_steps (snd (query_model ev a msgs)) = n_steps a"
  "consecutive_failures (snd (query_model ev a msgs)) = consecutive_failures a"
proof -
  obtain r a1 where 1: "get_next_action ev a msgs = (r, a1)" by (cases "get_next_action ev a msgs")
  obtain r2 a2 where 2: "get_next_action ev a1 (msgs @ [clarification_message]) = (r2, a2)"
    by (cases "get_next_action ev a1 (msgs @ [clarification_message])")
  have a1: "n_steps a1 = n_steps a" "consecutive_failures a1 = consecutive_failures a"
    using counters_get_next_action [of ev a msgs] 1 by simp_all
  have a2: "n_steps a2 = n_steps a1" "consecutive_failures a2 = consecutive_failures a1"
    using counters_get_next_action [of ev a1 "msgs @ [clarification_message]"] 2 by simp_all
  show "n_steps (snd (query_model ev a msgs)) = n_steps a"
    using 1 2 a1 a2 by (simp add: query_model_def split: sum.splits)
  show "consecutive_failures (snd (query_model ev a msgs)) = consecutive_failures a"
    using 1 2 a1 a2 by (simp add: query_model_def split: sum.splits)
qed

lemma counters_message_ops [simp]:
  "n_steps (remove_last_state_message a) = n_steps a"
  "consecutive_failures (remove_last_state_message a) = consecutive_failures a"
  "n_steps (add_message_with_tokens a m) = n_steps a"
  "consecutive_failures (add_message_with_tokens a m) = consecutive_failures a"
  "n_steps (add_model_output a mo) = n_steps a"
  "consecutive_failures (add_model_output a mo) = consecutive_failures a"
  "n_steps (add_state_message ev a st si) = n_steps a"
  "consecutive_failures (add_state_message ev a st si) = consecutive_failures a"
  "n_steps (add_plan a plan pos) = n_steps a"
  "consecutive_failures (add_plan a plan pos) = consecutive_failures a"
  by (simp_all add: remove_last_state_message_def add_message_with_tokens_def add_model_output_def
        add_state_message_def add_plan_def split: option.splits)

lemma counters_model_phase:
  "n_steps (snd (model_phase ev a msgs)) =
     n_steps a + (case fst (model_phase ev a msgs) of Inl x \<Rightarrow> 0 | Inr mo \<Rightarrow> 1)"
  "consecutive_failures (snd (model_phase ev a msgs)) = consecutive_failures a"
proof -
  obtain r a1 where 1: "query_model ev a msgs = (r, a1)" by (cases "query_model ev a msgs")
  have a1: "n_steps a1 = n_steps a" "consecutive_failures a1 = consecutive_failures a"
    using counters_query_model [of ev a msgs] 1 by simp_all
  show "n_steps (snd (model_phase ev a msgs)) =
     n_steps a + (case fst (model_phase ev a msgs) of Inl x \<Rightarrow> 0 | Inr mo \<Rightarrow> 1)"
    using 1 a1 by (simp add: model_phase_def raise_if_stopped_or_paused_def split: sum.splits prod.splits)
  show "consecutive_failures (snd (model_phase ev a msgs)) = consecutive_failures a"
    using 1 a1 by (simp add: model_phase_def raise_if_stopped_or_paused_def split: sum.splits prod.splits)
qed

lemma counters_run_planner [simp]:
  "n_steps (snd (run_planner ev a)) = n_steps a"
  "consecutive_failures (snd (run_planner ev a)) = consecutive_failures a"
  by (simp_all add: run_planner_def Let_def split: sum.splits)

lemma counters_planner_stage [simp]:
  "n_steps (snd (planner_stage ev a)) = n_steps a"
  "consecutive_failures (snd (planner_stage ev a)) = consecutive_failures a"
proof -
  obtain r a1 where 1: "run_planner ev a = (r, a1)" by (cases "run_planner ev a")
  have a1: "n_steps a1 = n_steps a" "consecutive_failures a1 = consecutive_failures a"
    using counters_run_planner [of ev a] 1 by simp_all
  show "n_steps (snd (planner_stage ev a)) = n_steps a"
    using 1 a1 by (simp add: planner_stage_def split: sum.splits)
  show "consecutive_failures (snd (planner_stage ev a)) = consecutive_failures a"
    using 1 a1 by (simp add: planner_stage_def split: sum.splits)
qed

lemma counters_last_step_stage [simp]:
  "n_steps (last_step_stage a si) = n_steps a"
  "consecutive_failures (last_step_stage a si) = consecutive_failures a"
  by (simp_all add: last_step_stage_def split: option.splits)

lemma counters_prepare [simp]:
  "n_steps (snd (prepare ev a si st)) = n_steps a"
  "consecutive_failures (snd (prepare ev a si st)) = consecutive_failures a"
proof -
  obtain r a1 where 1: "planner_stage ev (add_state_message ev a st si) = (r, a1)"
    by (cases "planner_stage ev (add_state_message ev a st si)")
  have a1: "n_steps a1 = n_steps a" "consecutive_failures a1 = consecutive_failures a"
    using counters_planner_stage [of ev "add_state_message ev a st si"] 1 by simp_all
  show "n_steps (snd (prepare ev a si st)) = n_steps a"
    using 1 a1 by (simp add: prepare_def raise_if_stopped_or_paused_def Let_def split: sum.splits)
  show "consecutive_failures (snd (prepare ev a si st)) = consecutive_failures a"
    using 1 a1 by (simp add: prepare_def raise_if_stopped_or_paused_def Let_def split: sum.splits)
qed

lemma counters_multi_act_loop:
  "n_steps (snd (multi_act_loop ev a acts acc)) = n_steps a \<and>
   consecutive_failures (snd (multi_act_loop ev a acts acc)) = consecutive_failures a"
  by (induction acts arbitrary: a acc)
     (auto simp add: raise_if_stopped_or_paused_def Let_def split: sum.splits)

lemma counters_multi_act [simp]:
  "n_steps (snd (multi_act ev a acts)) = n_steps a"
  "consecutive_failures (snd (multi_act ev a acts)) = consecutive_failures a"
  by (simp_all add: multi_act_def counters_multi_act_loop)

lemma counters_handle_step_error [simp]:
  "n_steps (snd (handle_step_error ev a e)) = n_steps a"
  "consecutive_failures (snd (handle_step_error ev a e)) = consecutive_failures a + 1"
  by (cases e; simp add: handle_step_error_def Let_def)+

lemma counters_step_finally [simp]:
  "n_steps (step_finally a mo st result) = n_steps a"
  "consecutive_failures (step_finally a mo st result) = consecutive_failures a"
  by (simp_all add: step_finally_def split: option.splits)


lemma step_body_n_steps:
  "n_steps (fst (snd (step_body ev a si))) =
     n_steps a + (if model_phase_completes ev a si then 1 else 0)"
proof (cases "env_app_state ev (trace a)")
  case (Inl e)
  then show ?thesis by (simp add: step_body_def model_phase_completes_def step_inputs_def)
next
  case (Inr st)
  let ?a1 = "a\<lparr>trace := trace a @ [GetAppState]\<rparr>"
  obtain r a2 where p: "prepare ev ?a1 si st = (r, a2)" by (cases "prepare ev ?a1 si st")
  have a2: "n_steps a2 = n_steps a" using counters_prepare(1) [of ev ?a1 si st] p by simp
  show ?thesis
  proof (cases r)
    case (Inl e)
    then show ?thesis using Inr p a2
      by (simp add: step_body_def model_phase_completes_def step_inputs_def)
  next
    case (Inr msgs)
    obtain r3 a3 where m: "model_phase ev a2 msgs = (r3, a3)" by (cases "model_phase ev a2 msgs")
    have a3: "n_steps a3 = n_steps a2 + (case r3 of Inl x \<Rightarrow> 0 | Inr mo \<Rightarrow> 1)"
      using counters_model_phase(1) [of ev a2 msgs] m by simp
    show ?thesis
    proof (cases r3)
      case (Inl x)
      then show ?thesis using \<open>env_app_state ev (trace a) = Inr st\<close> p Inr m a2 a3
        by (cases x) (simp add: step_body_def model_phase_completes_def step_inputs_def)
    next
      case (Inr mo)
      obtain r4 a4 where ma: "multi_act ev a3 (action mo) = (r4, a4)"
        by (cases "multi_act ev a3 (action mo)")
      have a4: "n_steps a4 = n_steps a3" using counters_multi_act(1) [of ev a3 "action mo"] ma by simp
      show ?thesis using \<open>env_app_state ev (trace a) = Inr st\<close> p \<open>r = Inr msgs\<close> m Inr ma a2 a3 a4
        by (cases r4) (simp_all add: step_body_def model_phase_completes_def step_inputs_def)
    qed
  qed
qed

lemma step_body_failures:
  "consecutive_failures (fst (snd (step_body ev a si))) =
     (case fst (step_body ev a si) of Inl e \<Rightarrow> consecutive_failures a | Inr result \<Rightarrow> 0)"
proof (cases "env_app_state ev (trace a)")
  case (Inl e)
  then show ?thesis by (simp add: step_body_def)
next
  case (Inr st)
  let ?a1 = "a\<lparr>trace := trace a @ [GetAppState]\<rparr>"
  obtain r a2 where p: "prepare ev ?a1 si st = (r, a2)" by (cases "prepare ev ?a1 si st")
  have a2: "consecutive_failures a2 = consecutive_failures a"
    using counters_prepare(2) [of ev ?a1 si st] p by simp
  show ?thesis
  proof (cases r)
    case (Inl e)
    then show ?thesis using Inr p a2 by (simp add: step_body_def)
  next
    case (Inr msgs)
    obtain r3 a3 where m: "model_phase ev a2 msgs = (r3, a3)" by (cases "model_phase ev a2 msgs")
    have a3: "consecutive_failures a3 = consecutive_failures a2"
      using counters_model_phase(2) [of ev a2 msgs] m by simp
    show ?thesis
    proof (cases r3)
      case (Inl x)
      then show ?thesis using \<open>env_app_state ev (trace a) = Inr st\<close> p Inr m a2 a3
        by (cases x) (simp add: step_body_def)
    next
      case (Inr mo)
      obtain r4 a4 where ma: "multi_act ev a3 (action mo) = (r4, a4)"
        by (cases "multi_act ev a3 (action mo)")
      have a4: "consecutive_failures a4 = consecutive_failures a3"
        using counters_multi_act(2) [of ev a3 "action mo"] ma by simp
      show ?thesis using \<open>env_app_state ev (trace a) = Inr st\<close> p \<open>r = Inr msgs\<close> m Inr ma a2 a3 a4
        by (cases r4) (simp_all add: step_body_def)
    qed
  qed
qed

lemma step_n_steps: "n_steps (step ev a si) = n_steps (fst (snd (step_body ev a si)))"
proof -
  obtain r a1 st mo where b: "step_body ev a si = (r, a1, st, mo)"
    by (cases "step_body ev a si") auto
  show ?thesis
  proof (cases r)
    case (Inl e)
    obtain res a2 where h: "handle_step_error ev a1 e = (res, a2)"
      by (cases "handle_step_error ev a1 e")
    have "n_steps a2 = n_steps a1" using counters_handle_step_error(1) [of ev a1 e] h by simp
    then show ?thesis using b Inl h by (cases e) (simp_all add: step_def)
  next
    case (Inr result)
    then show ?thesis using b by (simp add: step_def)
  qed
qed

lemma step_failures:
  "consecutive_failures (step ev a si) =
     (case fst (step_body ev a si) of
        Inr result \<Rightarrow> 0
      | Inl e \<Rightarrow> if is_interrupt e then consecutive_failures a else consecutive_failures a + 1)"
proof -
  obtain r a1 st mo where b: "step_body ev a si = (r, a1, st, mo)"
    by (cases "step_body ev a si") auto
  have bf: "consecutive_failures a1 =
     (case r of Inl e \<Rightarrow> consecutive_failures a | Inr result \<Rightarrow> 0)"
    using step_body_failures [of ev a si] b by simp
  show ?thesis
  proof (cases r)
    case (Inl e)
    obtain res a2 where h: "handle_step_error ev a1 e = (res, a2)"
      by (cases "handle_step_error ev a1 e")
    have "consecutive_failures a2 = consecutive_failures a1 + 1"
      using counters_handle_step_error(2) [of ev a1 e] h by simp
    then show ?thesis using b Inl h bf by (cases e) (simp_all add: step_def is_interrupt_def)
  next
    case (Inr result)
    then show ?thesis using b bf by (simp add: step_def)
  qed
qed


lemma handle_step_error_result:
  "\<exists>m. fst (handle_step_error ev a e) = [error_result m]"
  by (cases e) (auto simp add: handle_step_error_def Let_def)

lemma model_phase_ok_iff:
  "(\<exists>mo. fst (model_phase ev a msgs) = Inr mo) \<longleftrightarrow>
   (\<exists>mo a3. query_model ev a msgs = (Inr mo, a3) \<and> \<not> stopped a3 \<and> \<not> paused a3)"
proof -
  obtain r a1 where q: "query_model ev a msgs = (r, a1)" by (cases "query_model ev a msgs")
  show ?thesis
  proof (cases r)
    case (Inl x)
    then show ?thesis using q by (cases x) (simp add: model_phase_def)
  next
    case (Inr mo)
    then show ?thesis using q by (simp add: model_phase_def raise_if_stopped_or_paused_def)
  qed
qed

text \<open>
  C1, as stated, fails: a step whose action batch returns a result carrying an error
  does not increment the counter; it resets it to zero.
\<close>

theorem failure_counter_counterexample:
  "list_ex (\<lambda>r. error r \<noteq> None)
     (step_result error_result_env (base_agent\<lparr>consecutive_failures := 1\<rparr>) None)
   \<and> consecutive_failures (base_agent\<lparr>consecutive_failures := 1\<rparr>) = 1
   \<and> consecutive_failures (step error_result_env (base_agent\<lparr>consecutive_failures := 1\<rparr>) None) = 0"
  by code_simp

text \<open>
  C1, amended. After a step the failure counter is zero when the action batch of the
  step returned its results (whether or not one of them carries an error); it is one
  more than before when the step raised an exception other than an interrupt; it is
  unchanged when the step was interrupted (\<open>InterruptedError\<close> or \<open>CancelledError\<close>). In
  particular a step whose result list is non-empty and holds no error resets it to zero.
\<close>

theorem failure_counter_update:
  "consecutive_failures (step ev a si) =
     (case fst (step_body ev a si) of
        Inr result \<Rightarrow> 0
      | Inl e \<Rightarrow> if is_interrupt e then consecutive_failures a else consecutive_failures a + 1)
   \<and> (step_result ev a si \<noteq> [] \<and> list_all (\<lambda>r. error r = None) (step_result ev a si)
        \<longrightarrow> consecutive_failures (step ev a si) = 0)"
proof (rule conjI)
  show "consecutive_failures (step ev a si) =
     (case fst (step_body ev a si) of
        Inr result \<Rightarrow> 0
      | Inl e \<Rightarrow> if is_interrupt e then consecutive_failures a else consecutive_failures a + 1)"
    by (rule step_failures)
next
  obtain r a1 st mo where b: "step_body ev a si = (r, a1, st, mo)"
    by (cases "step_body ev a si") auto
  show "step_result ev a si \<noteq> [] \<and> list_all (\<lambda>r. error r = None) (step_result ev a si)
        \<longrightarrow> consecutive_failures (step ev a si) = 0"
  proof (cases r)
    case (Inl e)
    obtain m where m: "fst (handle_step_error ev a1 e) = [error_result m]"
      using handle_step_error_result by blast
    have "step_result ev a si = (if is_interrupt e then [] else [error_result m])"
      using b Inl m by (simp add: step_result_def)
    then show ?thesis by (simp add: error_result_def)
  next
    case (Inr result)
    have "consecutive_failures (step ev a si) = 0"
      using step_failures [of ev a si] b Inr by simp
    then show ?thesis by simp
  qed
qed

theorem failure_counter_update_witness:
  "consecutive_failures (step failing_llm_env base_agent None) = 1
   \<and> consecutive_failures (step base_env (base_agent\<lparr>consecutive_failures := 2\<rparr>) None) = 0
   \<and> consecutive_failures (step pausing_env (base_agent\<lparr>consecutive_failures := 2\<rparr>) None) = 2"
proof -
  have 1: "fst (step_body failing_llm_env base_agent None) = Inl (ValueError ''Could not parse response.'')"
    by code_simp
  have 2: "fst (step_body base_env (base_agent\<lparr>consecutive_failures := 2\<rparr>) None) = Inr [ok_result, ok_result]"
    by code_simp
  have 3: "fst (step_body pausing_env (base_agent\<lparr>consecutive_failures := 2\<rparr>) None) = Inl (InterruptedError [])"
    by code_simp
  show ?thesis
    using failure_counter_update [of failing_llm_env base_agent None]
      failure_counter_update [of base_env "base_agent\<lparr>consecutive_failures := 2\<rparr>" None]
      failure_counter_update [of pausing_env "base_agent\<lparr>consecutive_failures := 2\<rparr>" None] 1 2 3
    by (simp add: is_interrupt_def base_agent_def)
qed

text \<open>
  C10. A step adds one to \<open>n_steps\<close> when its model phase completes, and nothing
  otherwise. The model phase completes exactly when the step reaches the model call,
  the query returns a parsed output (after the retry, if any) and the agent is neither
  paused nor stopped afterwards; whether the actions executed afterwards succeed plays
  no part.
\<close>

theorem step_counter_advance:
  "n_steps (step ev a si) = n_steps a + (if model_phase_completes ev a si then 1 else 0)
   \<and> (\<forall>a2 msgs. step_inputs ev a si = Some (a2, msgs) \<longrightarrow>
         (model_phase_completes ev a si \<longleftrightarrow>
            (\<exists>mo a3. query_model ev a2 msgs = (Inr mo, a3) \<and> \<not> stopped a3 \<and> \<not> paused a3)))
   \<and> (step_inputs ev a si = None \<longrightarrow> \<not> model_phase_completes ev a si)"
proof (intro conjI allI impI)
  show "n_steps (step ev a si) = n_steps a + (if model_phase_completes ev a si then 1 else 0)"
    by (simp only: step_n_steps step_body_n_steps)
next
  fix a2 msgs assume s: "step_inputs ev a si = Some (a2, msgs)"
  have "model_phase_completes ev a si \<longleftrightarrow> (\<exists>mo. fst (model_phase ev a2 msgs) = Inr mo)"
    using s by (simp add: model_phase_completes_def split: sum.splits)
  then show "model_phase_completes ev a si \<longleftrightarrow>
            (\<exists>mo a3. query_model ev a2 msgs = (Inr mo, a3) \<and> \<not> stopped a3 \<and> \<not> paused a3)"
    by (simp only: model_phase_ok_iff)
next
  assume "step_inputs ev a si = None"
  then show "\<not> model_phase_completes ev a si" by (simp add: model_phase_completes_def)
qed

theorem step_counter_advance_witness:
  "n_steps (step failing_act_env base_agent None) = 2
   \<and> n_steps (step failing_llm_env base_agent None) = 1
   \<and> n_steps (step pausing_env base_agent None) = 1"
proof -
  have 1: "model_phase_completes failing_act_env base_agent None" by code_simp
  have 2: "\<not> model_phase_completes failing_llm_env base_agent None" by code_simp
  have 3: "\<not> model_phase_completes pausing_env base_agent None" by code_simp
  have n: "n_steps base_agent = 1" by (simp add: base_agent_def)
  show ?thesis
    using step_counter_advance [of failing_act_env base_agent None]
      step_counter_advance [of failing_llm_env base_agent None]
      step_counter_advance [of pausing_env base_agent None] 1 2 3 n
    by simp
qed

subsection \<open>The run loop and the failure limit\<close>

lemma kept_refl [simp]: "kept a a"
  by (simp add: kept_def)

lemma kept_trans: "kept a b \<Longrightarrow> kept b c \<Longrightarrow> kept a c"
  by (simp add: kept_def)

lemma kept_deliver_interrupt [simp]: "kept a (deliver_interrupt i a)"
  by (simp add: kept_def deliver_interrupt_def split: option.splits interrupt.splits)

lemma kept_get_next_action: "kept a (snd (get_next_action ev a msgs))"
  by (simp add: get_next_action_def Let_def kept_def deliver_interrupt_def
        split: sum.splits option.splits interrupt.splits)

lemma kept_query_model: "kept a (snd (query_model ev a msgs))"
proof -
  obtain r a1 where 1: "get_next_action ev a msgs = (r, a1)" by (cases "get_next_action ev a msgs")
  obtain r2 a2 where 2: "get_next_action ev a1 (msgs @ [clarification_message]) = (r2, a2)"
    by (cases "get_next_action ev a1 (msgs @ [clarification_message])")
  have a1: "kept a a1" using kept_get_next_action [of a ev msgs] 1 by simp
  have "kept a1 a2" using kept_get_next_action [of a1 ev "msgs @ [clarification_message]"] 2 by simp
  then have a2: "kept a a2" using a1 kept_trans by blast
  show ?thesis using 1 2 a1 a2 by (simp add: query_model_def split: sum.splits)
qed

lemma kept_message_ops [simp]:
  "kept a (remove_last_state_message a)"
  "kept a (add_message_with_tokens a m)"
  "kept a (add_model_output a mo)"
  "kept a (add_state_message ev a st si)"
  "kept a (add_plan a plan pos)"
  by (simp_all add: kept_def remove_last_state_message_def add_message_with_tokens_def
        add_model_output_def add_state_message_def add_plan_def split: option.splits)

lemma kept_model_phase: "kept a (snd (model_phase ev a msgs))"
proof -
  obtain r a1 where 1: "query_model ev a msgs = (r, a1)" by (cases "query_model ev a msgs")
  have a1: "kept a a1" using kept_query_model [of a ev msgs] 1 by simp
  then show ?thesis using 1
    by (simp add: model_phase_def raise_if_stopped_or_paused_def kept_def
          remove_last_state_message_def add_model_output_def add_message_with_tokens_def
          split: sum.splits prod.splits)
qed

lemma kept_run_planner: "kept a (snd (run_planner ev a))"
  by (simp add: run_planner_def Let_def kept_def add_message_with_tokens_def split: sum.splits)

lemma kept_planner_stage: "kept a (snd (planner_stage ev a))"
proof -
  obtain r a1 where 1: "run_planner ev a = (r, a1)" by (cases "run_planner ev a")
  have a1: "kept a a1" using kept_run_planner [of a ev] 1 by simp
  then show ?thesis using 1 by (simp add: planner_stage_def kept_def add_plan_def split: sum.splits)
qed

lemma kept_last_step_stage [simp]: "kept a (last_step_stage a si)"
  by (simp add: last_step_stage_def kept_def add_message_with_tokens_def split: option.splits)

lemma kept_prepare: "kept a (snd (prepare ev a si st))"
proof -
  obtain r a1 where 1: "planner_stage ev (add_state_message ev a st si) = (r, a1)"
    by (cases "planner_stage ev (add_state_message ev a st si)")
  have "kept (add_state_message ev a st si) a1"
    using kept_planner_stage [of "add_state_message ev a st si" ev] 1 by simp
  then have a1: "kept a a1" by (simp add: kept_def add_state_message_def)
  then show ?thesis using 1
    by (simp add: prepare_def raise_if_stopped_or_paused_def Let_def kept_def
          last_step_stage_def add_message_with_tokens_def split: sum.splits option.splits)
qed

lemma kept_multi_act_loop: "kept a (snd (multi_act_loop ev a acts acc))"
proof (induction acts arbitrary: a acc)
  case Nil
  then show ?case by simp
next
  case (Cons x xs)
  let ?a1 = "deliver_interrupt (env_interrupt ev (trace a)) (a\<lparr>trace := trace a @ [Act x]\<rparr>)"
  let ?a2 = "deliver_interrupt (env_interrupt ev (trace ?a1)) (?a1\<lparr>trace := trace ?a1 @ [Sleep 500]\<rparr>)"
  have k1: "kept a ?a1"
    by (simp add: kept_def deliver_interrupt_def split: option.splits interrupt.splits)
  have k2: "kept a ?a2"
    using k1 by (simp add: kept_def deliver_interrupt_def split: option.splits interrupt.splits)
  have "kept a (snd (multi_act_loop ev ?a2 xs (acc @ [r])))" for r
    using Cons.IH [of ?a2 "acc @ [r]"] k2 kept_trans by blast
  then show ?case using k1 k2
    by (simp add: raise_if_stopped_or_paused_def Let_def split: sum.splits)
qed

lemma kept_multi_act: "kept a (snd (multi_act ev a acts))"
  by (simp add: multi_act_def kept_multi_act_loop)

lemma kept_handle_step_error: "kept a (snd (handle_step_error ev a e))"
  by (cases e) (simp_all add: handle_step_error_def Let_def kept_def)


lemma kept_step_body: "kept a (fst (snd (step_body ev a si)))"
proof (cases "env_app_state ev (trace a)")
  case (Inl e)
  then show ?thesis by (simp add: step_body_def kept_def)
next
  case (Inr st)
  let ?a1 = "a\<lparr>trace := trace a @ [GetAppState]\<rparr>"
  obtain r a2 where p: "prepare ev ?a1 si st = (r, a2)" by (cases "prepare ev ?a1 si st")
  have "kept ?a1 a2" using kept_prepare [of ?a1 ev si st] p by simp
  then have a2: "kept a a2" by (simp add: kept_def)
  show ?thesis
  proof (cases r)
    case (Inl e)
    then show ?thesis using Inr p a2 by (simp add: step_body_def)
  next
    case (Inr msgs)
    obtain r3 a3 where m: "model_phase ev a2 msgs = (r3, a3)" by (cases "model_phase ev a2 msgs")
    have "kept a2 a3" using kept_model_phase [of a2 ev msgs] m by simp
    then have a3: "kept a a3" using a2 kept_trans by blast
    show ?thesis
    proof (cases r3)
      case (Inl x)
      then show ?thesis using \<open>env_app_state ev (trace a) = Inr st\<close> p Inr m a3
        by (cases x) (simp add: step_body_def)
    next
      case (Inr mo)
      obtain r4 a4 where ma: "multi_act ev a3 (action mo) = (r4, a4)"
        by (cases "multi_act ev a3 (action mo)")
      have "kept a3 a4" using kept_multi_act [of a3 ev "action mo"] ma by simp
      then have a4: "kept a a4" using a3 kept_trans by blast
      show ?thesis using \<open>env_app_state ev (trace a) = Inr st\<close> p \<open>r = Inr msgs\<close> m Inr ma a4
        by (cases r4) (simp_all add: step_body_def kept_def)
    qed
  qed
qed

lemma step_max_failures: "max_failures (step ev a si) = max_failures a"
proof -
  obtain r a1 st mo where b: "step_body ev a si = (r, a1, st, mo)"
    by (cases "step_body ev a si") auto
  have k: "kept a a1" using kept_step_body [of a ev si] b by simp
  show ?thesis
  proof (cases r)
    case (Inl e)
    obtain res a2 where h: "handle_step_error ev a1 e = (res, a2)"
      by (cases "handle_step_error ev a1 e")
    have "kept a1 a2" using kept_handle_step_error [of a1 ev e] h by simp
    then show ?thesis using b Inl h k
      by (cases e) (simp_all add: step_def kept_def step_finally_def split: option.splits)
  next
    case (Inr result)
    then show ?thesis using b k by (simp add: step_def kept_def step_finally_def split: option.splits)
  qed
qed

lemma history_is_done_snoc:
  "history_is_done (h @ [item]) = (case rev (h_result item) of [] \<Rightarrow> False | r # rs \<Rightarrow> is_done r)"
  by (simp add: history_is_done_def)

lemma step_fail_not_done:
  assumes "fst (step_body ev a si) = Inl e" and "\<not> is_interrupt e"
    and "\<not> history_is_done (history a)"
  shows "\<not> history_is_done (history (step ev a si))"
proof -
  obtain r a1 st mo where b: "step_body ev a si = (r, a1, st, mo)"
    by (cases "step_body ev a si") auto
  have r: "r = Inl e" using assms(1) b by simp
  have k: "kept a a1" using kept_step_body [of a ev si] b by simp
  obtain res a2 where h: "handle_step_error ev a1 e = (res, a2)"
    by (cases "handle_step_error ev a1 e")
  have k2: "kept a1 a2" using kept_handle_step_error [of a1 ev e] h by simp
  obtain m where m: "res = [error_result m]"
    using handle_step_error_result [of ev a1 e] h by auto
  have s: "step ev a si = step_finally (a2\<lparr>last_result := res\<rparr>) mo st res"
    using b r h assms(2) by (cases e) (simp_all add: step_def is_interrupt_def)
  have hist: "history a2 = history a" using k k2 by (simp add: kept_def)
  show ?thesis
    using assms(3) hist m
    by (simp add: s step_finally_def history_is_done_snoc error_result_def split: option.splits)
qed

lemma step_fail_failures:
  assumes "failing_step ev a si"
  shows "consecutive_failures (step ev a si) = consecutive_failures a + 1"
proof (cases "fst (step_body ev a si)")
  case (Inl e)
  then have "\<not> is_interrupt e" using assms by (simp add: failing_step_def)
  then show ?thesis using step_failures [of ev a si] Inl by simp
next
  case (Inr result)
  then show ?thesis using assms by (simp add: failing_step_def)
qed

text \<open>
  C5, as stated, fails: with \<open>max_failures = 3\<close>, six consecutive steps whose result list
  carries an error (failing steps in the sense of the claim: no error-free result) do
  not halt the run on the third; all six are executed, the counter stays at zero, and
  the run ends because the step limit is reached.
\<close>

theorem run_error_results_counterexample:
  "max_failures base_agent = 3
   \<and> fst (run error_result_env base_agent 6) =
       Returned (Some ''Failed to complete task in maximum steps'')
   \<and> count_llm_calls (trace (snd (run error_result_env base_agent 6))) = 6
   \<and> map (\<lambda>h. map error (h_result h)) (history (snd (run error_result_env base_agent 6))) =
       [[None, Some ''element not found''], [None, Some ''element not found''],
        [None, Some ''element not found''], [None, Some ''element not found''],
        [None, Some ''element not found''], [None, Some ''element not found'']]
   \<and> consecutive_failures (snd (run error_result_env base_agent 6)) = 0"
  by code_simp

text \<open>
  C5, amended. The counter rises only on steps that raise an exception other than an
  interrupt. If the next steps of a run are such steps, as many as the counter is short
  of \<open>max_failures\<close>, and a further step number is left in the loop, then the run
  executes exactly these steps and returns with the reason "Stopped due to ...
  consecutive failures": the agent it ends with is the agent after the last of them, so
  no further step is executed. With no step missing (the counter has reached
  \<open>max_failures\<close>) the run returns at once with the agent unchanged. With
  \<open>max_failures = 3\<close> and a counter of zero, three consecutive steps that raise halt
  the run after the third.
\<close>

theorem run_halts_at_max_failures:
  assumes "length steps = nat (max_failures a - consecutive_failures a)"
    and "all_fail ev lim a steps"
    and "\<not> history_is_done (history a)"
    and "rest \<noteq> []"
  shows "run_loop ev lim a (steps @ rest) =
           (Returned (Some (''Stopped due to '' @ str_int (max_failures a) @ '' consecutive failures'')),
            run_steps ev lim a steps)"
  using assms
proof (induction steps arbitrary: a)
  case Nil
  then obtain j r where "rest = j # r" by (cases rest) auto
  then show ?case using Nil by simp
next
  case (Cons i steps)
  let ?si = "Some \<lparr>step_number = int i, max_steps = lim\<rparr>"
  let ?a1 = "step ev a ?si"
  have f: "failing_step ev a ?si" and af: "all_fail ev lim ?a1 steps"
    using Cons.prems(2) by simp_all
  have lt: "consecutive_failures a < max_failures a" using Cons.prems(1) by simp
  have cf: "consecutive_failures ?a1 = consecutive_failures a + 1" using f by (rule step_fail_failures)
  have mf: "max_failures ?a1 = max_failures a" by (rule step_max_failures)
  obtain e where e: "fst (step_body ev a ?si) = Inl e" "\<not> is_interrupt e"
    using f by (auto simp add: failing_step_def split: sum.splits)
  have nd: "\<not> history_is_done (history ?a1)"
    using step_fail_not_done [OF e Cons.prems(3)] .
  have len: "length steps = nat (max_failures ?a1 - consecutive_failures ?a1)"
    using Cons.prems(1) cf mf by simp
  have ih: "run_loop ev lim ?a1 (steps @ rest) =
           (Returned (Some (''Stopped due to '' @ str_int (max_failures ?a1) @ '' consecutive failures'')),
            run_steps ev lim ?a1 steps)"
    using Cons.IH [OF len af nd Cons.prems(4)] .
  have np: "\<not> paused a" "\<not> stopped a" using f by (simp_all add: failing_step_def)
  show ?case using lt np nd ih mf by (simp add: Let_def)
qed

theorem run_halts_at_max_failures_witness:
  "run_loop failing_llm_env 10 base_agent ([0, 1, 2] @ [3, 4, 5, 6, 7, 8, 9]) =
     (Returned (Some ''Stopped due to 3 consecutive failures''),
      run_steps failing_llm_env 10 base_agent [0, 1, 2])
   \<and> consecutive_failures (run_steps failing_llm_env 10 base_agent [0, 1, 2]) = 3
   \<and> count_llm_calls (trace (snd (run failing_llm_env base_agent 10))) = 3
   \<and> fst (run failing_llm_env base_agent 10) = Returned (Some ''Stopped due to 3 consecutive failures'')"
proof -
  have 1: "length [0::nat, 1, 2] = nat (max_failures base_agent - consecutive_failures base_agent)"
    by (simp add: base_agent_def)
  have 2: "all_fail failing_llm_env 10 base_agent [0, 1, 2]" by code_simp
  have 3: "\<not> history_is_done (history base_agent)" by (simp add: base_agent_def history_is_done_def)
  have 4: "[3, 4, 5, 6, 7, 8, 9::nat] \<noteq> []" by simp
  have 5: "str_int (max_failures base_agent) = ''3''" by code_simp
  have 6: "consecutive_failures (run_steps failing_llm_env 10 base_agent [0, 1, 2]) = 3" by code_simp
  have 7: "count_llm_calls (trace (snd (run failing_llm_env base_agent 10))) = 3" by code_simp
  have 8: "fst (run failing_llm_env base_agent 10) = Returned (Some ''Stopped due to 3 consecutive failures'')"
    by code_simp
  from run_halts_at_max_failures [OF 1 2 3 4] 5 6 7 8 show ?thesis by simp
qed

subsection \<open>The planner\<close>

text \<open>
  C9, evaluated on the code. With a planner configured, its interval met and reasoning
  mode on, the transcript at the model call ends with the ephemeral state message
  followed by the planner's guidance: the guidance stands after the state message, not
  before it (\<open>_run_planner\<close> returns no plan, so \<open>add_plan\<close> has nothing to insert, and
  adds the guidance itself at the end). With reasoning mode off the transcript holds the
  state message only: no guidance is inserted.
\<close>

theorem planner_guidance_position:
  "map_option (\<lambda>(a, msgs). (map snd (messages a), last msgs))
       (step_inputs base_env planner_agent None)
     = Some ([True, False], HumanMessage ''Strategic guidance from planner: go left'')
   \<and> map_option (\<lambda>(a, msgs). map snd (messages a))
       (step_inputs base_env (planner_agent\<lparr>is_planner_reasoning := False\<rparr>) None)
     = Some [True]"
  by code_simp

subsection \<open>The planner stage in any environment\<close>

text \<open>
  Whenever the planner is consulted and answers, the planner stage of a step leaves the
  transcript as it was, with the guidance added at its end in reasoning mode.
\<close>

lemma planner_stage_appends:
  assumes "planner_llm a" and "planner_interval a \<noteq> 0"
    and "n_steps a mod planner_interval a = 0"
    and "env_app_state ev (trace a) = Inr st"
    and "env_planner ev (trace a @ [GetAppState]) = Inr guidance"
  shows "fst (planner_stage ev a) = Inr () \<and>
         messages (snd (planner_stage ev a)) =
           messages a @ (if is_planner_reasoning a
                         then [(HumanMessage (''Strategic guidance from planner: '' @ guidance), False)]
                         else [])"
  using assms
  by (simp add: planner_stage_def run_planner_def add_plan_def add_message_with_tokens_def Let_def)

end
